theory Spec2Isabelle
  imports Complex_Main
begin

section \<open>Data model (src/types/index.ts)\<close>

text \<open>
  The TypeScript type \<open>number\<close> is read in two ways.

  \<^item> In the search and in the cost model it is \<^typ>\<open>real\<close>: arithmetic is exact, and the
    trigonometric functions are the mathematical ones. The value \<open>Infinity\<close>, which the cost
    model returns for an excluded edge, is a constructor of its own (\<open>weight\<close> below). What is
    proved in this reading is either independent of the values of the distances, or rests
    on comparisons between distances that differ by metres.

  \<^item> In the distance function itself, and in the two methods whose results are decided by a
    single comparison of distances (\<open>removeObstacle\<close>, \<open>getAccessibleFeaturesOnRoute\<close>), it is
    the type \<open>f64\<close> of the double-precision numbers below, with rounding after every
    operation and with \<open>NaN\<close>. Where a function is needed in both readings, the one that
    computes in doubles carries the suffix \<open>_f64\<close>.

  The coordinates of a location are finite numbers and are kept as reals; a function that
  computes in doubles reads them through the rounding \<open>fl\<close>, which leaves a double as it is
  and takes a decimal literal to the double it denotes. Optional fields (\<open>altitude?\<close>) are
  \<open>option\<close>s.
\<close>

record NavigationLocation =
  latitude :: real
  longitude :: real
  altitude :: "real option"
  heading :: "real option"
  accuracy :: "real option"

datatype FeatureType = ramp | elevator | wide_pathway | rest_area | well_lit | tactile_paving

datatype ObstacleType = stairs | construction | narrow_path | poor_lighting | uneven_surface

text \<open>
  Both interfaces have fields called \<open>type\<close>, \<open>location\<close> and \<open>description\<close>; the
  record fields carry a prefix to keep them apart.
\<close>

record AccessibilityFeature =
  f_type :: FeatureType
  f_location :: NavigationLocation
  f_description :: string
  isActive :: bool

record AccessibilityObstacle =
  o_type :: ObstacleType
  o_location :: NavigationLocation
  o_description :: string
  temporaryUntil :: "int option"

record AccessibilityPreferences =
  requiresWheelchairAccess :: bool
  preferWellLit :: bool
  needsRestStops :: bool
  maximumSlope :: "real option"
  minimumPathWidth :: "real option"

text \<open>The private members of the class \<open>AccessibilityRoutingService\<close>.\<close>

record service =
  features :: "AccessibilityFeature list"
  obstacles :: "AccessibilityObstacle list"
  userPreferences :: "AccessibilityPreferences option"

section \<open>Geodesy\<close>

text \<open>
  The exact reading. \<open>Math.atan2(y, x)\<close>, by the quadrant of \<open>(x, y)\<close>. \<open>Math.sqrt\<close> is
  \<^const>\<open>sqrt\<close>: in exact arithmetic both arguments of the square roots in the distance lie
  between 0 and 1 (lemmas \<open>hav_a_nonneg\<close> and \<open>hav_a_le_one\<close> below), where the two agree.
\<close>

definition atan2 :: "real \<Rightarrow> real \<Rightarrow> real" where
  "atan2 y x =
     (if 0 < x then arctan (y / x)
      else if x < 0 then (if 0 \<le> y then arctan (y / x) + pi else arctan (y / x) - pi)
      else if 0 < y then pi / 2
      else if y < 0 then - (pi / 2)
      else 0)"

text \<open>The quantity \<open>a\<close> of the haversine formula, from the four angles in radians.\<close>

definition hav_a :: "real \<Rightarrow> real \<Rightarrow> real \<Rightarrow> real \<Rightarrow> real" where
  "hav_a phi1 phi2 dphi dlam =
     sin (dphi / 2) * sin (dphi / 2) + cos phi1 * cos phi2 * sin (dlam / 2) * sin (dlam / 2)"

text \<open>\<open>AccessibilityRoutingService.calculateBaseDistance\<close>, in exact arithmetic.\<close>

definition calculateBaseDistance :: "NavigationLocation \<Rightarrow> NavigationLocation \<Rightarrow> real" where
  "calculateBaseDistance start end =
     (let R = 6371000;
          phi1 = (latitude start * pi) / 180;
          phi2 = (latitude end * pi) / 180;
          dphi = ((latitude end - latitude start) * pi) / 180;
          dlam = ((longitude end - longitude start) * pi) / 180;
          a = hav_a phi1 phi2 dphi dlam;
          c = 2 * atan2 (sqrt a) (sqrt (1 - a))
      in R * c)"

section \<open>Double-precision numbers\<close>

text \<open>
  A \<open>number\<close> of the engine: \<open>NaN\<close>, one of the two infinities, or a finite double, given
  by its value. The two zeros are not told apart: the distance function takes square
  roots and arc tangents of non-negative numbers only and divides by the literals 180 and
  2 only, so that the sign of a zero never reaches a result.
\<close>

datatype f64 = NaN | PosInfinity | NegInfinity | Fin real

text \<open>The integer nearest to a real, the even one of the two on a tie.\<close>

definition roundEven :: "real \<Rightarrow> int" where
  "roundEven r =
     (let n = \<lfloor>r\<rfloor>; d = r - of_int n
      in if d < 1 / 2 then n else if 1 / 2 < d then n + 1 else if even n then n else n + 1)"

text \<open>
  The binary exponent of a real: \<open>2 ^ e \<le> \<bar>x\<bar> < 2 ^ (e + 1)\<close>, and \<open>- 1022\<close> for the smaller
  ones (the subnormal range).
\<close>

definition binade :: "real \<Rightarrow> int" where
  "binade x = max \<lfloor>log 2 \<bar>x\<bar>\<rfloor> (- 1022)"

text \<open>
  Rounding to the nearest double, ties to even (IEEE 754, binary64): the doubles with
  exponent \<open>e\<close> are the multiples of \<open>2 ^ (e - 52)\<close>; a result of magnitude \<open>2 ^ 1024\<close> or more
  is an infinity.
\<close>

definition fl :: "real \<Rightarrow> f64" where
  "fl x =
     (if x = 0 then Fin 0
      else
        let u = 2 powr (of_int (binade x) - 52);
            y = of_int (roundEven (x / u)) * u
        in if 2 ^ 1024 \<le> \<bar>y\<bar> then (if 0 < x then PosInfinity else NegInfinity) else Fin y)"

text \<open>The arithmetic operators: the exact result, rounded.\<close>

fun f64_neg :: "f64 \<Rightarrow> f64" where
  "f64_neg NaN = NaN"
| "f64_neg PosInfinity = NegInfinity"
| "f64_neg NegInfinity = PosInfinity"
| "f64_neg (Fin x) = Fin (- x)"

fun f64_add :: "f64 \<Rightarrow> f64 \<Rightarrow> f64" where
  "f64_add (Fin x) (Fin y) = fl (x + y)"
| "f64_add NaN y = NaN"
| "f64_add x NaN = NaN"
| "f64_add PosInfinity NegInfinity = NaN"
| "f64_add NegInfinity PosInfinity = NaN"
| "f64_add PosInfinity y = PosInfinity"
| "f64_add x PosInfinity = PosInfinity"
| "f64_add NegInfinity y = NegInfinity"
| "f64_add x NegInfinity = NegInfinity"

definition f64_sub :: "f64 \<Rightarrow> f64 \<Rightarrow> f64" where
  "f64_sub x y = f64_add x (f64_neg y)"

text \<open>An infinity times or over a finite number: by the sign, and \<open>NaN\<close> for zero.\<close>

definition infinityOfSign :: "real \<Rightarrow> f64" where
  "infinityOfSign s = (if s = 0 then NaN else if 0 < s then PosInfinity else NegInfinity)"

fun f64_mul :: "f64 \<Rightarrow> f64 \<Rightarrow> f64" where
  "f64_mul (Fin x) (Fin y) = fl (x * y)"
| "f64_mul NaN y = NaN"
| "f64_mul x NaN = NaN"
| "f64_mul PosInfinity (Fin y) = infinityOfSign y"
| "f64_mul NegInfinity (Fin y) = infinityOfSign (- y)"
| "f64_mul (Fin x) PosInfinity = infinityOfSign x"
| "f64_mul (Fin x) NegInfinity = infinityOfSign (- x)"
| "f64_mul PosInfinity PosInfinity = PosInfinity"
| "f64_mul NegInfinity NegInfinity = PosInfinity"
| "f64_mul PosInfinity NegInfinity = NegInfinity"
| "f64_mul NegInfinity PosInfinity = NegInfinity"

fun f64_div :: "f64 \<Rightarrow> f64 \<Rightarrow> f64" where
  "f64_div (Fin x) (Fin y) = (if y = 0 then infinityOfSign x else fl (x / y))"
| "f64_div NaN y = NaN"
| "f64_div x NaN = NaN"
| "f64_div (Fin x) PosInfinity = Fin 0"
| "f64_div (Fin x) NegInfinity = Fin 0"
| "f64_div PosInfinity (Fin y) = (if 0 \<le> y then PosInfinity else NegInfinity)"
| "f64_div NegInfinity (Fin y) = (if 0 \<le> y then NegInfinity else PosInfinity)"
| "f64_div x y = NaN"

text \<open>The comparisons \<open><\<close>, \<open>>\<close>, \<open>===\<close> and \<open><=\<close>: all false when an operand is \<open>NaN\<close>.\<close>

fun f64_lt :: "f64 \<Rightarrow> f64 \<Rightarrow> bool" where
  "f64_lt (Fin x) (Fin y) \<longleftrightarrow> x < y"
| "f64_lt NaN y \<longleftrightarrow> False"
| "f64_lt x NaN \<longleftrightarrow> False"
| "f64_lt x NegInfinity \<longleftrightarrow> False"
| "f64_lt PosInfinity y \<longleftrightarrow> False"
| "f64_lt NegInfinity y \<longleftrightarrow> True"
| "f64_lt x PosInfinity \<longleftrightarrow> True"

definition f64_gt :: "f64 \<Rightarrow> f64 \<Rightarrow> bool" where
  "f64_gt x y \<longleftrightarrow> f64_lt y x"

definition strictEquals :: "f64 \<Rightarrow> f64 \<Rightarrow> bool" where
  "strictEquals x y \<longleftrightarrow> x \<noteq> NaN \<and> x = y"

definition f64_le :: "f64 \<Rightarrow> f64 \<Rightarrow> bool" where
  "f64_le x y \<longleftrightarrow> f64_lt x y \<or> strictEquals x y"

text \<open>
  The members of \<open>Math\<close>. \<open>Math.PI\<close> is the double \<open>0x1.921fb54442d18p+1\<close>. The functions are
  taken to return the double nearest to the exact value.
\<close>

definition Math_PI :: f64 where
  "Math_PI = Fin (884279719003555 / 2 ^ 48)"

fun Math_sin :: "f64 \<Rightarrow> f64" where
  "Math_sin (Fin x) = fl (sin x)"
| "Math_sin x = NaN"

fun Math_cos :: "f64 \<Rightarrow> f64" where
  "Math_cos (Fin x) = fl (cos x)"
| "Math_cos x = NaN"

fun Math_sqrt :: "f64 \<Rightarrow> f64" where
  "Math_sqrt (Fin x) = (if x < 0 then NaN else fl (sqrt x))"
| "Math_sqrt PosInfinity = PosInfinity"
| "Math_sqrt x = NaN"

fun Math_atan2 :: "f64 \<Rightarrow> f64 \<Rightarrow> f64" where
  "Math_atan2 (Fin y) (Fin x) = fl (atan2 y x)"
| "Math_atan2 NaN x = NaN"
| "Math_atan2 y NaN = NaN"
| "Math_atan2 (Fin y) PosInfinity = Fin 0"
| "Math_atan2 (Fin y) NegInfinity = (if 0 \<le> y then Math_PI else f64_neg Math_PI)"
| "Math_atan2 PosInfinity (Fin x) = fl (pi / 2)"
| "Math_atan2 NegInfinity (Fin x) = fl (- (pi / 2))"
| "Math_atan2 PosInfinity PosInfinity = fl (pi / 4)"
| "Math_atan2 PosInfinity NegInfinity = fl (3 * pi / 4)"
| "Math_atan2 NegInfinity PosInfinity = fl (- (pi / 4))"
| "Math_atan2 NegInfinity NegInfinity = fl (- (3 * pi / 4))"

text \<open>
  The quantity \<open>a\<close> as the code computes it: \<open>*\<close> associates to the left, and \<open>\<Delta>\<phi> / 2\<close> and
  \<open>\<Delta>\<lambda> / 2\<close> are computed at each of their two occurrences.
\<close>

definition hav_a_f64 :: "f64 \<Rightarrow> f64 \<Rightarrow> f64 \<Rightarrow> f64 \<Rightarrow> f64" where
  "hav_a_f64 phi1 phi2 dphi dlam =
     f64_add (f64_mul (Math_sin (f64_div dphi (fl 2))) (Math_sin (f64_div dphi (fl 2))))
       (f64_mul
          (f64_mul (f64_mul (Math_cos phi1) (Math_cos phi2)) (Math_sin (f64_div dlam (fl 2))))
          (Math_sin (f64_div dlam (fl 2))))"

text \<open>\<open>calculateDistance\<close> of src/utils/navigation.ts.\<close>

definition calculateDistance :: "NavigationLocation \<Rightarrow> NavigationLocation \<Rightarrow> f64" where
  "calculateDistance start end =
     (let R = fl 6371000;
          phi1 = f64_div (f64_mul (fl (latitude start)) Math_PI) (fl 180);
          phi2 = f64_div (f64_mul (fl (latitude end)) Math_PI) (fl 180);
          dphi = f64_div (f64_mul (f64_sub (fl (latitude end)) (fl (latitude start))) Math_PI) (fl 180);
          dlam = f64_div (f64_mul (f64_sub (fl (longitude end)) (fl (longitude start))) Math_PI) (fl 180);
          a = hav_a_f64 phi1 phi2 dphi dlam;
          c = f64_mul (fl 2) (Math_atan2 (Math_sqrt a) (Math_sqrt (f64_sub (fl 1) a)))
      in f64_mul R c)"

text \<open>
  \<open>AccessibilityRoutingService.calculateBaseDistance\<close>: the same formula, written out a
  second time in the service.
\<close>

definition calculateBaseDistance_f64 :: "NavigationLocation \<Rightarrow> NavigationLocation \<Rightarrow> f64" where
  "calculateBaseDistance_f64 start end =
     (let R = fl 6371000;
          phi1 = f64_div (f64_mul (fl (latitude start)) Math_PI) (fl 180);
          phi2 = f64_div (f64_mul (fl (latitude end)) Math_PI) (fl 180);
          dphi = f64_div (f64_mul (f64_sub (fl (latitude end)) (fl (latitude start))) Math_PI) (fl 180);
          dlam = f64_div (f64_mul (f64_sub (fl (longitude end)) (fl (longitude start))) Math_PI) (fl 180);
          a = hav_a_f64 phi1 phi2 dphi dlam;
          c = f64_mul (fl 2) (Math_atan2 (Math_sqrt a) (Math_sqrt (f64_sub (fl 1) a)))
      in f64_mul R c)"

section \<open>The accessibility knowledge base (AccessibilityRoutingService)\<close>

definition setUserPreferences :: "AccessibilityPreferences \<Rightarrow> service \<Rightarrow> service" where
  "setUserPreferences preferences svc = svc\<lparr>userPreferences := Some preferences\<rparr>"

definition addFeature :: "AccessibilityFeature \<Rightarrow> service \<Rightarrow> service" where
  "addFeature feature svc = svc\<lparr>features := features svc @ [feature]\<rparr>"

definition addObstacle :: "AccessibilityObstacle \<Rightarrow> service \<Rightarrow> service" where
  "addObstacle obstacle svc = svc\<lparr>obstacles := obstacles svc @ [obstacle]\<rparr>"

text \<open>\<open>removeObstacle\<close> computes in doubles.\<close>

definition removeObstacle :: "NavigationLocation \<Rightarrow> service \<Rightarrow> service" where
  "removeObstacle location svc =
     svc\<lparr>obstacles :=
       filter (\<lambda>obs. f64_gt (calculateBaseDistance_f64 (o_location obs) location) (fl 1))
         (obstacles svc)\<rparr>"

definition isPointNearLine ::
  "NavigationLocation \<Rightarrow> NavigationLocation \<Rightarrow> NavigationLocation \<Rightarrow> real \<Rightarrow> bool" where
  "isPointNearLine point lineStart lineEnd threshold =
     (let d1 = calculateBaseDistance point lineStart;
          d2 = calculateBaseDistance point lineEnd;
          lineLength = calculateBaseDistance lineStart lineEnd
      in (d1 + d2) < (lineLength + threshold))"

definition isPointNearLine_f64 ::
  "NavigationLocation \<Rightarrow> NavigationLocation \<Rightarrow> NavigationLocation \<Rightarrow> f64 \<Rightarrow> bool" where
  "isPointNearLine_f64 point lineStart lineEnd threshold =
     (let d1 = calculateBaseDistance_f64 point lineStart;
          d2 = calculateBaseDistance_f64 point lineEnd;
          lineLength = calculateBaseDistance_f64 lineStart lineEnd
      in f64_lt (f64_add d1 d2) (f64_add lineLength threshold))"

definition findFeaturesOnPath ::
  "service \<Rightarrow> NavigationLocation \<Rightarrow> NavigationLocation \<Rightarrow> AccessibilityFeature list" where
  "findFeaturesOnPath svc start end =
     filter (\<lambda>feature. isPointNearLine (f_location feature) start end 20) (features svc)"

definition findObstaclesOnPath ::
  "service \<Rightarrow> NavigationLocation \<Rightarrow> NavigationLocation \<Rightarrow> AccessibilityObstacle list" where
  "findObstaclesOnPath svc start end =
     filter (\<lambda>obstacle. isPointNearLine (o_location obstacle) start end 20) (obstacles svc)"

text \<open>
  \<open>isLocationAccessible\<close>: the loop over the nearby obstacles returns \<open>false\<close> at the
  first blocking one.
\<close>

fun accessibleLoop :: "AccessibilityPreferences \<Rightarrow> AccessibilityObstacle list \<Rightarrow> bool" where
  "accessibleLoop preferences [] = True"
| "accessibleLoop preferences (obstacle # rest) =
     (if requiresWheelchairAccess preferences \<and>
         (o_type obstacle = stairs \<or> o_type obstacle = narrow_path)
      then False
      else accessibleLoop preferences rest)"

definition isLocationAccessible ::
  "service \<Rightarrow> NavigationLocation \<Rightarrow> AccessibilityPreferences \<Rightarrow> bool" where
  "isLocationAccessible svc location preferences =
     (let nearbyObstacles =
            filter (\<lambda>obstacle. calculateBaseDistance location (o_location obstacle) < 20)
              (obstacles svc)
      in accessibleLoop preferences nearbyObstacles)"

section \<open>The path cost model\<close>

text \<open>A weight is a number or \<open>Infinity\<close>.\<close>

datatype weight = Weight real | Infinity

text \<open>
  The first loop of \<open>calculatePathWeight\<close>: an excluding obstacle returns \<open>Infinity\<close>
  from the whole function; a poorly lit one multiplies the running weight by 1.5.
\<close>

fun obstacleLoop ::
  "AccessibilityPreferences \<Rightarrow> real \<Rightarrow> AccessibilityObstacle list \<Rightarrow> weight" where
  "obstacleLoop preferences w [] = Weight w"
| "obstacleLoop preferences w (obstacle # rest) =
     (if requiresWheelchairAccess preferences \<and>
         (o_type obstacle = stairs \<or> o_type obstacle = narrow_path)
      then Infinity
      else obstacleLoop preferences
             (if preferWellLit preferences \<and> o_type obstacle = poor_lighting
              then w * 1.5 else w)
             rest)"

text \<open>The second loop: the discounts of the features on the path.\<close>

fun featureLoop ::
  "AccessibilityPreferences \<Rightarrow> real \<Rightarrow> AccessibilityFeature list \<Rightarrow> real" where
  "featureLoop preferences w [] = w"
| "featureLoop preferences w (feature # rest) =
     (let w1 = (if requiresWheelchairAccess preferences \<and>
                   (f_type feature = ramp \<or> f_type feature = elevator)
                then w * 0.8 else w);
          w2 = (if needsRestStops preferences \<and> f_type feature = rest_area
                then w1 * 0.9 else w1)
      in featureLoop preferences w2 rest)"

definition calculatePathWeight ::
  "service \<Rightarrow> NavigationLocation \<Rightarrow> NavigationLocation \<Rightarrow> AccessibilityPreferences \<Rightarrow> weight" where
  "calculatePathWeight svc start end preferences =
     (let weight = calculateBaseDistance start end;
          obstaclesOnPath = findObstaclesOnPath svc start end
      in case obstacleLoop preferences weight obstaclesOnPath of
           Infinity \<Rightarrow> Infinity
         | Weight weight' \<Rightarrow>
             (let featuresOnPath = findFeaturesOnPath svc start end
              in Weight (featureLoop preferences weight' featuresOnPath)))"

section \<open>Route annotation\<close>

text \<open>
  \<open>getAccessibleFeaturesOnRoute\<close> computes in doubles. The filter on one segment: inactive
  features are rejected first, the others are tested against the segment.
\<close>

definition featuresOnSegment ::
  "service \<Rightarrow> NavigationLocation \<Rightarrow> NavigationLocation \<Rightarrow> AccessibilityFeature list" where
  "featuresOnSegment svc startPoint endPoint =
     filter (\<lambda>feature. if \<not> isActive feature then False
                       else isPointNearLine_f64 (f_location feature) startPoint endPoint (fl 20))
       (features svc)"

definition sameCoordinates :: "AccessibilityFeature \<Rightarrow> AccessibilityFeature \<Rightarrow> bool" where
  "sameCoordinates f feature \<longleftrightarrow>
     strictEquals (fl (latitude (f_location f))) (fl (latitude (f_location feature))) \<and>
     strictEquals (fl (longitude (f_location f))) (fl (longitude (f_location feature)))"

text \<open>The \<open>forEach\<close>: a feature is pushed unless one with its coordinates is there already.\<close>

fun pushNew :: "AccessibilityFeature list \<Rightarrow> AccessibilityFeature list \<Rightarrow> AccessibilityFeature list" where
  "pushNew relevantFeatures [] = relevantFeatures"
| "pushNew relevantFeatures (feature # rest) =
     pushNew (if \<not> list_ex (\<lambda>f. sameCoordinates f feature) relevantFeatures
              then relevantFeatures @ [feature] else relevantFeatures) rest"

text \<open>
  \<open>Array.prototype.sort\<close> with a comparison function: \<open>x\<close> goes before \<open>y\<close> when the function
  returns a negative number, and a \<open>NaN\<close> that it returns counts as 0. The sort is stable.
  With a function that is not a consistent order the standard leaves the arrangement to
  the engine; the model is the stable insertion sort.
\<close>

fun insertBy :: "('a \<Rightarrow> 'a \<Rightarrow> f64) \<Rightarrow> 'a \<Rightarrow> 'a list \<Rightarrow> 'a list" where
  "insertBy compareFn x [] = [x]"
| "insertBy compareFn x (y # ys) =
     (if f64_lt (compareFn x y) (Fin 0) then x # y # ys else y # insertBy compareFn x ys)"

definition Array_sort :: "('a \<Rightarrow> 'a \<Rightarrow> f64) \<Rightarrow> 'a list \<Rightarrow> 'a list" where
  "Array_sort compareFn xs = foldl (\<lambda>sorted x. insertBy compareFn x sorted) [] xs"

text \<open>
  The loop over the segments \<open>i = 0, \<dots>, route.length - 2\<close>, then the sort by the
  distance from \<open>route[0]\<close>. The indices \<open>i\<close> and \<open>i + 1\<close> are within the route.
\<close>

definition getAccessibleFeaturesOnRoute ::
  "service \<Rightarrow> NavigationLocation list \<Rightarrow> AccessibilityFeature list" where
  "getAccessibleFeaturesOnRoute svc route =
     (if length route < 2 then []
      else
        let relevantFeatures =
              fold (\<lambda>i relevant. pushNew relevant (featuresOnSegment svc (route ! i) (route ! (i + 1))))
                [0 ..< length route - 1] []
        in Array_sort
             (\<lambda>a b. let distanceA = calculateBaseDistance_f64 (route ! 0) (f_location a);
                        distanceB = calculateBaseDistance_f64 (route ! 0) (f_location b)
                    in f64_sub distanceA distanceB)
             relevantFeatures)"

section \<open>The grid-expansion A* search\<close>

text \<open>
  \<open>locationToKey\<close> prints the two coordinates into a string; the key is modelled by the
  pair of coordinates themselves.
\<close>

type_synonym key = "real \<times> real"

definition locationToKey :: "NavigationLocation \<Rightarrow> key" where
  "locationToKey location = (latitude location, longitude location)"

definition estimateDistance :: "NavigationLocation \<Rightarrow> NavigationLocation \<Rightarrow> real" where
  "estimateDistance a b = calculateBaseDistance a b"

definition isAtDestination :: "NavigationLocation \<Rightarrow> NavigationLocation \<Rightarrow> bool" where
  "isAtDestination current end \<longleftrightarrow> calculateBaseDistance current end < 5"

definition gridSize :: real where
  "gridSize = 0.0001"

text \<open>
  The eight candidate neighbours, in the order in which the nested iteration over \<open>i\<close> and
  \<open>j\<close> creates them. The sums are exact here; the engine rounds them, so that from a point
  like \<open>(0, 0.0002)\<close> the neighbour to the east gets the longitude
  \<open>0.00030000000000000003\<close> and a key of its own. The inputs of the theorems about the
  search below are built from the coordinates 0, \<open>\<plusminus>0.0001\<close> and 0.0002 (a sum of two equal
  doubles is exact) or do not depend on the keys.
\<close>

definition gridNeighbors :: "NavigationLocation \<Rightarrow> NavigationLocation list" where
  "gridNeighbors current =
     [\<lparr>latitude = latitude current + (i * gridSize),
       longitude = longitude current + (j * gridSize),
       altitude = None, heading = None, accuracy = None\<rparr>.
      i \<leftarrow> [-1, 0, 1], j \<leftarrow> [-1, 0, 1], \<not> (i = 0 \<and> j = 0)]"

definition getAccessibleNeighbors ::
  "service \<Rightarrow> NavigationLocation \<Rightarrow> AccessibilityPreferences \<Rightarrow> NavigationLocation list" where
  "getAccessibleNeighbors svc current preferences =
     filter (\<lambda>neighbor. isLocationAccessible svc neighbor preferences) (gridNeighbors current)"

text \<open>
  The open set is a JavaScript \<open>Set\<close> of objects: membership is by object identity, and
  iteration is in insertion order. An object is modelled by a reference (a number given
  at its creation) and its value; the objects of this program are never mutated.
  \<open>add\<close> inserts at the end unless the very same object is in the set; \<open>delete\<close> removes
  the object with that reference.
\<close>

type_synonym obj = "nat \<times> NavigationLocation"

definition set_add :: "obj \<Rightarrow> obj list \<Rightarrow> obj list" where
  "set_add x s = (if fst x \<in> set (map fst s) then s else s @ [x])"

definition set_delete :: "obj \<Rightarrow> obj list \<Rightarrow> obj list" where
  "set_delete x s = filter (\<lambda>y. fst y \<noteq> fst x) s"

datatype error = NoRouteFound | EmptyFrontier

text \<open>
  \<open>NoRouteFound\<close> is \<open>Error('No accessible route found')\<close>, \<open>EmptyFrontier\<close> is
  \<open>Error('No nodes in open set')\<close>.

  The local variables of \<open>findAccessibleRoute\<close>, and the counter of the references
  given out so far. In exact arithmetic only finite numbers are ever stored in the score
  maps.
\<close>

record search =
  openSet :: "obj list"
  cameFrom :: "key \<rightharpoonup> NavigationLocation"
  gScore :: "key \<rightharpoonup> real"
  fScore :: "key \<rightharpoonup> real"
  nextRef :: nat

text \<open>\<open>map.get(k) ?? Infinity\<close>, and \<open><\<close> on numbers that may be infinite.\<close>

definition getOrInfinity :: "(key \<rightharpoonup> real) \<Rightarrow> key \<Rightarrow> weight" where
  "getOrInfinity m k = (case m k of None \<Rightarrow> Infinity | Some v \<Rightarrow> Weight v)"

fun weight_less :: "weight \<Rightarrow> weight \<Rightarrow> bool" where
  "weight_less (Weight a) (Weight b) = (a < b)"
| "weight_less (Weight a) Infinity = True"
| "weight_less Infinity b = False"

text \<open>
  \<open>getLowestFScore\<close>: the \<open>forEach\<close> over the open set keeps the lowest score seen
  (\<open>Infinity\<close> at first) and its node (\<open>null\<close> at first); a node replaces the kept one
  only when its score is strictly lower.
\<close>

fun lowestLoop :: "(key \<rightharpoonup> real) \<Rightarrow> obj list \<Rightarrow> weight \<Rightarrow> obj option \<Rightarrow> obj option" where
  "lowestLoop fS [] lowest lowestNode = lowestNode"
| "lowestLoop fS (node # rest) lowest lowestNode =
     (let score = getOrInfinity fS (locationToKey (snd node))
      in if weight_less score lowest
         then lowestLoop fS rest score (Some node)
         else lowestLoop fS rest lowest lowestNode)"

definition getLowestFScore :: "obj list \<Rightarrow> (key \<rightharpoonup> real) \<Rightarrow> error + obj" where
  "getLowestFScore openSet' fS =
     (case lowestLoop fS openSet' Infinity None of
        None \<Rightarrow> Inl EmptyFrontier
      | Some lowestNode \<Rightarrow> Inr lowestNode)"

text \<open>
  The body of the loop over the neighbours. \<open>gScore.get(key(current))!\<close> is read again
  for every neighbour; were it missing, the sum would be \<open>NaN\<close> and the comparison
  false. An infinite edge weight gives an infinite tentative score, which is never
  strictly below anything.
\<close>

definition relax ::
  "service \<Rightarrow> NavigationLocation \<Rightarrow> AccessibilityPreferences \<Rightarrow> NavigationLocation \<Rightarrow>
   obj \<Rightarrow> search \<Rightarrow> search" where
  "relax svc end preferences current neighbor st =
     (case gScore st (locationToKey current) of
        None \<Rightarrow> st
      | Some g \<Rightarrow>
          (case calculatePathWeight svc current (snd neighbor) preferences of
             Infinity \<Rightarrow> st
           | Weight w \<Rightarrow>
               (let tentativeGScore = g + w
                in if weight_less (Weight tentativeGScore)
                        (getOrInfinity (gScore st) (locationToKey (snd neighbor)))
                   then st\<lparr>cameFrom := (cameFrom st)(locationToKey (snd neighbor) \<mapsto> current),
                           gScore := (gScore st)(locationToKey (snd neighbor) \<mapsto> tentativeGScore),
                           fScore := (fScore st)(locationToKey (snd neighbor) \<mapsto>
                              tentativeGScore + estimateDistance (snd neighbor) end),
                           openSet := set_add neighbor (openSet st)\<rparr>
                   else st)))"

text \<open>
  One expansion: \<open>current\<close> leaves the open set, its accessible neighbours are created
  (each a new object, with the next free references) and relaxed in turn.
\<close>

definition expand ::
  "service \<Rightarrow> NavigationLocation \<Rightarrow> AccessibilityPreferences \<Rightarrow> obj \<Rightarrow> search \<Rightarrow> search" where
  "expand svc end preferences current st =
     (let neighbors = getAccessibleNeighbors svc (snd current) preferences;
          objects = zip [nextRef st ..< nextRef st + length neighbors] neighbors
      in fold (relax svc end preferences (snd current)) objects
           (st\<lparr>openSet := set_delete current (openSet st),
               nextRef := nextRef st + length neighbors\<rparr>))"

text \<open>\<open>reconstructPath\<close>: the loop runs while the current key has a predecessor.\<close>

partial_function (option) reconstructLoop ::
  "(key \<rightharpoonup> NavigationLocation) \<Rightarrow> NavigationLocation \<Rightarrow> NavigationLocation list \<Rightarrow>
   NavigationLocation list option" where
  "reconstructLoop cF current path =
     (case cF (locationToKey current) of
        None \<Rightarrow> Some path
      | Some previous \<Rightarrow> reconstructLoop cF previous (previous # path))"

definition reconstructPath ::
  "(key \<rightharpoonup> NavigationLocation) \<Rightarrow> NavigationLocation \<Rightarrow> NavigationLocation list option" where
  "reconstructPath cF current = reconstructLoop cF current [current]"

text \<open>
  The \<open>while\<close> loop of \<open>findAccessibleRoute\<close>. The result \<open>None\<close> stands for a loop that
  runs forever, \<open>Some (Inl e)\<close> for a thrown error and \<open>Some (Inr route)\<close> for a returned
  route.
\<close>

partial_function (option) searchLoop ::
  "service \<Rightarrow> NavigationLocation \<Rightarrow> AccessibilityPreferences \<Rightarrow> search \<Rightarrow>
   (error + NavigationLocation list) option" where
  "searchLoop svc end preferences st =
     (if openSet st = [] then Some (Inl NoRouteFound)
      else
        (case getLowestFScore (openSet st) (fScore st) of
           Inl e \<Rightarrow> Some (Inl e)
         | Inr current \<Rightarrow>
             if isAtDestination (snd current) end
             then map_option Inr (reconstructPath (cameFrom st) (snd current))
             else searchLoop svc end preferences (expand svc end preferences current st)))"

definition initialSearch :: "NavigationLocation \<Rightarrow> NavigationLocation \<Rightarrow> search" where
  "initialSearch start end =
     \<lparr>openSet = [(0, start)],
      cameFrom = Map.empty,
      gScore = [locationToKey start \<mapsto> 0],
      fScore = [locationToKey start \<mapsto> estimateDistance start end],
      nextRef = 1\<rparr>"

definition findAccessibleRoute ::
  "service \<Rightarrow> NavigationLocation \<Rightarrow> NavigationLocation \<Rightarrow> AccessibilityPreferences \<Rightarrow>
   (error + NavigationLocation list) option" where
  "findAccessibleRoute svc start end preferences =
     searchLoop svc end preferences (initialSearch start end)"

section \<open>Auxiliary notions for the proofs\<close>

text \<open>
  A list of features in ascending order of the distance from a point, as the code
  computes that distance.
\<close>

definition sortedByDistance :: "NavigationLocation \<Rightarrow> AccessibilityFeature list \<Rightarrow> bool" where
  "sortedByDistance first fs \<longleftrightarrow>
     sorted_wrt (\<lambda>a b. f64_le (calculateBaseDistance_f64 first (f_location a))
                          (calculateBaseDistance_f64 first (f_location b))) fs"

text \<open>
  The invariant of the search loop: every open node and every recorded predecessor is
  the start or has a predecessor itself; a key with predecessor \<open>p\<close> is the key of a grid
  neighbour of \<open>p\<close>; the start has no predecessor and score 0; no score is negative; every
  open node has an \<open>f\<close> score.
\<close>

definition searchInv :: "NavigationLocation \<Rightarrow> search \<Rightarrow> bool" where
  "searchInv start st \<longleftrightarrow>
     (\<forall>x \<in> set (openSet st). snd x = start \<or> locationToKey (snd x) \<in> dom (cameFrom st))
   \<and> (\<forall>k p. cameFrom st k = Some p \<longrightarrow>
          (p = start \<or> locationToKey p \<in> dom (cameFrom st))
          \<and> k \<in> locationToKey ` set (gridNeighbors p))
   \<and> locationToKey start \<notin> dom (cameFrom st)
   \<and> gScore st (locationToKey start) = Some 0
   \<and> (\<forall>k v. gScore st k = Some v \<longrightarrow> 0 \<le> v)
   \<and> (\<forall>x \<in> set (openSet st). locationToKey (snd x) \<in> dom (fScore st))"

text \<open>A list of points in which each point has the coordinates of a grid neighbour of the one before.\<close>

fun stepwise :: "NavigationLocation list \<Rightarrow> bool" where
  "stepwise [] = True"
| "stepwise [x] = True"
| "stepwise (x # y # rest) =
     (locationToKey y \<in> locationToKey ` set (gridNeighbors x) \<and> stepwise (y # rest))"

text \<open>A complete route: from \<open>start\<close>, by grid steps, to a point less than 5 metres from \<open>end\<close>.\<close>

definition completeRoute ::
  "NavigationLocation \<Rightarrow> NavigationLocation \<Rightarrow> NavigationLocation list \<Rightarrow> bool" where
  "completeRoute start end route \<longleftrightarrow>
     route \<noteq> [] \<and> hd route = start \<and> calculateBaseDistance (last route) end < 5 \<and> stepwise route"

text \<open>Agreement of two preference records on the three fields that the service reads.\<close>

definition sameUsedFields :: "AccessibilityPreferences \<Rightarrow> AccessibilityPreferences \<Rightarrow> bool" where
  "sameUsedFields p q \<longleftrightarrow>
     requiresWheelchairAccess p = requiresWheelchairAccess q
   \<and> preferWellLit p = preferWellLit q
   \<and> needsRestStops p = needsRestStops q"

text \<open>
  One turn of the \<open>while\<close> loop, when it neither returns nor throws: the state at the
  next test of the loop condition.
\<close>

definition searchStep ::
  "service \<Rightarrow> NavigationLocation \<Rightarrow> AccessibilityPreferences \<Rightarrow> search \<Rightarrow> search option" where
  "searchStep svc end preferences st =
     (if openSet st = [] then None
      else
        (case getLowestFScore (openSet st) (fScore st) of
           Inl e \<Rightarrow> None
         | Inr current \<Rightarrow>
             if isAtDestination (snd current) end then None
             else Some (expand svc end preferences current st)))"

text \<open>The state after \<open>n\<close> turns of the loop, if the loop is still running then.\<close>

fun stateAfter ::
  "service \<Rightarrow> NavigationLocation \<Rightarrow> AccessibilityPreferences \<Rightarrow> search \<Rightarrow> nat \<Rightarrow> search option" where
  "stateAfter svc end preferences st 0 = Some st"
| "stateAfter svc end preferences st (Suc n) =
     (case searchStep svc end preferences st of
        None \<Rightarrow> None
      | Some st' \<Rightarrow> stateAfter svc end preferences st' n)"

text \<open>The points whose coordinates are whole multiples of the grid size.\<close>

definition onGrid :: "NavigationLocation \<Rightarrow> bool" where
  "onGrid l \<longleftrightarrow> (\<exists>i j :: int. latitude l = of_int i * gridSize \<and> longitude l = of_int j * gridSize)"

text \<open>The keys of the open nodes.\<close>

definition openKeys :: "search \<Rightarrow> key set" where
  "openKeys st = (\<lambda>x. locationToKey (snd x)) ` set (openSet st)"

text \<open>The key one grid step to the north.\<close>

definition northKey :: "key \<Rightarrow> key" where
  "northKey k = (fst k + gridSize, snd k)"

text \<open>
  The invariant of a search in the empty knowledge base from a grid point: the open nodes
  are grid points with scores and with distinct references below the counter; finitely
  many keys have a score; a scored key is the key of an open node or its northern
  neighbour is scored too.
\<close>

definition divInv :: "search \<Rightarrow> bool" where
  "divInv st \<longleftrightarrow>
     (\<forall>x \<in> set (openSet st). onGrid (snd x))
   \<and> finite (dom (gScore st)) \<and> dom (gScore st) \<noteq> {}
   \<and> (\<forall>k \<in> dom (gScore st). k \<in> openKeys st \<or> northKey k \<in> dom (gScore st))
   \<and> (\<forall>x \<in> set (openSet st).
         locationToKey (snd x) \<in> dom (gScore st) \<and> locationToKey (snd x) \<in> dom (fScore st))
   \<and> (\<forall>x \<in> set (openSet st). fst x < nextRef st)
   \<and> distinct (map fst (openSet st))"

text \<open>
  The same within the loop over the neighbours of \<open>cur\<close>, whose key is exempt until the
  loop is over; \<open>objs\<close> are the neighbour objects still to come.
\<close>

definition divFold :: "NavigationLocation \<Rightarrow> obj list \<Rightarrow> search \<Rightarrow> bool" where
  "divFold cur objs st \<longleftrightarrow>
     (\<forall>x \<in> set (openSet st). onGrid (snd x))
   \<and> (\<forall>nb \<in> set objs. onGrid (snd nb))
   \<and> finite (dom (gScore st))
   \<and> (\<forall>k \<in> dom (gScore st).
         k = locationToKey cur \<or> k \<in> openKeys st \<or> northKey k \<in> dom (gScore st))
   \<and> (\<forall>x \<in> set (openSet st).
         locationToKey (snd x) \<in> dom (gScore st) \<and> locationToKey (snd x) \<in> dom (fScore st))
   \<and> locationToKey cur \<in> dom (gScore st)
   \<and> (\<forall>x \<in> set (openSet st). fst x \<notin> fst ` set objs)
   \<and> distinct (map fst objs)
   \<and> (\<forall>x \<in> set (openSet st). fst x < nextRef st)
   \<and> (\<forall>nb \<in> set objs. fst nb < nextRef st)
   \<and> distinct (map fst (openSet st))"

text \<open>The Taylor polynomial of the cosine of degree 14, in Horner form.\<close>

definition cosPoly :: "real \<Rightarrow> real" where
  "cosPoly x = 1 - x\<^sup>2 / 2 * (1 - x\<^sup>2 / 12 * (1 - x\<^sup>2 / 30 * (1 - x\<^sup>2 / 56 *
     (1 - x\<^sup>2 / 90 * (1 - x\<^sup>2 / 132 * (1 - x\<^sup>2 / 182))))))"

section \<open>Example data\<close>

text \<open>Abbreviations for the concrete inputs at which the theorems below are instantiated.\<close>

definition loc :: "real \<Rightarrow> real \<Rightarrow> NavigationLocation" where
  "loc la lo = \<lparr>latitude = la, longitude = lo, altitude = None, heading = None, accuracy = None\<rparr>"

definition prefs :: "bool \<Rightarrow> bool \<Rightarrow> bool \<Rightarrow> AccessibilityPreferences" where
  "prefs wheelchair lit rest =
     \<lparr>requiresWheelchairAccess = wheelchair, preferWellLit = lit, needsRestStops = rest,
      maximumSlope = None, minimumPathWidth = None\<rparr>"

definition obstacleAt :: "ObstacleType \<Rightarrow> NavigationLocation \<Rightarrow> AccessibilityObstacle" where
  "obstacleAt t l = \<lparr>o_type = t, o_location = l, o_description = [], temporaryUntil = None\<rparr>"

definition featureAt :: "FeatureType \<Rightarrow> NavigationLocation \<Rightarrow> bool \<Rightarrow> AccessibilityFeature" where
  "featureAt t l active = \<lparr>f_type = t, f_location = l, f_description = [], isActive = active\<rparr>"

definition kb :: "AccessibilityFeature list \<Rightarrow> AccessibilityObstacle list \<Rightarrow> service" where
  "kb fs os = \<lparr>features = fs, obstacles = os, userPreferences = None\<rparr>"

definition origin :: NavigationLocation where
  "origin = loc 0 0"

definition north :: NavigationLocation where
  "north = loc 0.0001 0"

definition annotatedKb :: service where
  "annotatedKb = kb [featureAt rest_area north True, featureAt ramp origin False,
                    featureAt ramp origin True, featureAt elevator origin True] []"

text \<open>
  A point just north of the equator, the point opposite to it on the globe, and a point
  0.0001 degrees south of the latter.
\<close>

definition northPoint :: NavigationLocation where
  "northPoint = loc (8 / 100) 0"

definition antipode :: NavigationLocation where
  "antipode = loc (- (8 / 100)) 180"

definition southPoint :: NavigationLocation where
  "southPoint = loc (- (801 / 10000)) 180"

text \<open>A ramp at the antipode and a rest area south of it, both active.\<close>

definition antipodalKb :: service where
  "antipodalKb = kb [featureAt ramp antipode True, featureAt rest_area southPoint True] []"

text \<open>
  The angle of 0.08 degrees in radians as the code computes it, \<open>(0.08 * Math.PI) / 180\<close>,
  and half of \<open>Math.PI\<close>.
\<close>

definition smallAngle :: real where
  "smallAngle = 6439128407179665 / 2 ^ 62"

definition rightAngle :: real where
  "rightAngle = 884279719003555 / 2 ^ 49"

text \<open>A destination in the middle of a grid cell.\<close>

definition offGrid :: NavigationLocation where
  "offGrid = loc 0.00005 0.00005"

text \<open>The grid point \<open>i\<close> steps north and \<open>j\<close> steps east of \<open>(0, 0)\<close>.\<close>

definition gp :: "int \<Rightarrow> int \<Rightarrow> NavigationLocation" where
  "gp i j = loc (of_int i * gridSize) (of_int j * gridSize)"

text \<open>The grid step in radians.\<close>

definition delta :: real where
  "delta = pi / 1800000"

text \<open>The length of a step along the equator or a meridian.\<close>

definition stepLength :: real where
  "stepLength = 6371000 * delta"

text \<open>The length of a diagonal step that starts or ends on the equator.\<close>

definition diagonalLength :: real where
  "diagonalLength = 6371000 * (2 * arcsin (sqrt ((sin delta)\<^sup>2 / 2)))"

text \<open>The quantity \<open>a\<close> of the haversine formula between two grid points.\<close>

definition hgrid :: "int \<Rightarrow> int \<Rightarrow> int \<Rightarrow> real" where
  "hgrid di si dj =
     (sin (of_int di * delta / 2))\<^sup>2 * (cos (of_int dj * delta / 2))\<^sup>2
     + (cos (of_int si * delta / 2))\<^sup>2 * (sin (of_int dj * delta / 2))\<^sup>2"

text \<open>Five ramps at the grid point two steps east of \<open>(0, 0)\<close>, and no obstacle.\<close>

definition rampKb :: service where
  "rampKb = kb (replicate 5 (featureAt ramp (gp 0 2) True)) []"

text \<open>The weight of an edge in that knowledge base when wheelchair access is required.\<close>

definition rampWeight :: "NavigationLocation \<Rightarrow> NavigationLocation \<Rightarrow> real" where
  "rampWeight a b =
     (if isPointNearLine (gp 0 2) a b 20
      then calculateBaseDistance a b * (0.8 ^ 5)
      else calculateBaseDistance a b)"

text \<open>The state of the search in that knowledge base, from \<open>(0, 0)\<close> to the ramps, after the first turn of the loop.\<close>

definition afterFirst :: search where
  "afterFirst =
     \<lparr>openSet = [(1, gp (- 1) (- 1)), (2, gp (- 1) 0), (3, gp (- 1) 1), (4, gp 0 (- 1)),
                 (5, gp 0 1), (6, gp 1 (- 1)), (7, gp 1 0), (8, gp 1 1)],
      cameFrom = [locationToKey (gp (- 1) (- 1)) \<mapsto> gp 0 0, locationToKey (gp (- 1) 0) \<mapsto> gp 0 0,
                  locationToKey (gp (- 1) 1) \<mapsto> gp 0 0, locationToKey (gp 0 (- 1)) \<mapsto> gp 0 0,
                  locationToKey (gp 0 1) \<mapsto> gp 0 0, locationToKey (gp 1 (- 1)) \<mapsto> gp 0 0,
                  locationToKey (gp 1 0) \<mapsto> gp 0 0, locationToKey (gp 1 1) \<mapsto> gp 0 0],
      gScore = [locationToKey (gp 0 0) \<mapsto> 0,
                locationToKey (gp (- 1) (- 1)) \<mapsto> rampWeight (gp 0 0) (gp (- 1) (- 1)),
                locationToKey (gp (- 1) 0) \<mapsto> rampWeight (gp 0 0) (gp (- 1) 0),
                locationToKey (gp (- 1) 1) \<mapsto> rampWeight (gp 0 0) (gp (- 1) 1),
                locationToKey (gp 0 (- 1)) \<mapsto> rampWeight (gp 0 0) (gp 0 (- 1)),
                locationToKey (gp 0 1) \<mapsto> rampWeight (gp 0 0) (gp 0 1),
                locationToKey (gp 1 (- 1)) \<mapsto> rampWeight (gp 0 0) (gp 1 (- 1)),
                locationToKey (gp 1 0) \<mapsto> rampWeight (gp 0 0) (gp 1 0),
                locationToKey (gp 1 1) \<mapsto> rampWeight (gp 0 0) (gp 1 1)],
      fScore = [locationToKey (gp 0 0) \<mapsto> calculateBaseDistance (gp 0 0) (gp 0 2),
                locationToKey (gp (- 1) (- 1)) \<mapsto>
                  rampWeight (gp 0 0) (gp (- 1) (- 1)) + calculateBaseDistance (gp (- 1) (- 1)) (gp 0 2),
                locationToKey (gp (- 1) 0) \<mapsto>
                  rampWeight (gp 0 0) (gp (- 1) 0) + calculateBaseDistance (gp (- 1) 0) (gp 0 2),
                locationToKey (gp (- 1) 1) \<mapsto>
                  rampWeight (gp 0 0) (gp (- 1) 1) + calculateBaseDistance (gp (- 1) 1) (gp 0 2),
                locationToKey (gp 0 (- 1)) \<mapsto>
                  rampWeight (gp 0 0) (gp 0 (- 1)) + calculateBaseDistance (gp 0 (- 1)) (gp 0 2),
                locationToKey (gp 0 1) \<mapsto>
                  rampWeight (gp 0 0) (gp 0 1) + calculateBaseDistance (gp 0 1) (gp 0 2),
                locationToKey (gp 1 (- 1)) \<mapsto>
                  rampWeight (gp 0 0) (gp 1 (- 1)) + calculateBaseDistance (gp 1 (- 1)) (gp 0 2),
                locationToKey (gp 1 0) \<mapsto>
                  rampWeight (gp 0 0) (gp 1 0) + calculateBaseDistance (gp 1 0) (gp 0 2),
                locationToKey (gp 1 1) \<mapsto>
                  rampWeight (gp 0 0) (gp 1 1) + calculateBaseDistance (gp 1 1) (gp 0 2)],
      nextRef = 9\<rparr>"

text \<open>
  The state of the search in the empty knowledge base, from \<open>(0, 0)\<close> to the grid point
  \<open>e\<close>, after the first turn of the loop.
\<close>

definition afterFirstEmpty :: "NavigationLocation \<Rightarrow> search" where
  "afterFirstEmpty e =
     \<lparr>openSet = [(1, gp (- 1) (- 1)), (2, gp (- 1) 0), (3, gp (- 1) 1), (4, gp 0 (- 1)),
                 (5, gp 0 1), (6, gp 1 (- 1)), (7, gp 1 0), (8, gp 1 1)],
      cameFrom = [locationToKey (gp (- 1) (- 1)) \<mapsto> gp 0 0, locationToKey (gp (- 1) 0) \<mapsto> gp 0 0,
                  locationToKey (gp (- 1) 1) \<mapsto> gp 0 0, locationToKey (gp 0 (- 1)) \<mapsto> gp 0 0,
                  locationToKey (gp 0 1) \<mapsto> gp 0 0, locationToKey (gp 1 (- 1)) \<mapsto> gp 0 0,
                  locationToKey (gp 1 0) \<mapsto> gp 0 0, locationToKey (gp 1 1) \<mapsto> gp 0 0],
      gScore = [locationToKey (gp 0 0) \<mapsto> 0,
                locationToKey (gp (- 1) (- 1)) \<mapsto> calculateBaseDistance (gp 0 0) (gp (- 1) (- 1)),
                locationToKey (gp (- 1) 0) \<mapsto> calculateBaseDistance (gp 0 0) (gp (- 1) 0),
                locationToKey (gp (- 1) 1) \<mapsto> calculateBaseDistance (gp 0 0) (gp (- 1) 1),
                locationToKey (gp 0 (- 1)) \<mapsto> calculateBaseDistance (gp 0 0) (gp 0 (- 1)),
                locationToKey (gp 0 1) \<mapsto> calculateBaseDistance (gp 0 0) (gp 0 1),
                locationToKey (gp 1 (- 1)) \<mapsto> calculateBaseDistance (gp 0 0) (gp 1 (- 1)),
                locationToKey (gp 1 0) \<mapsto> calculateBaseDistance (gp 0 0) (gp 1 0),
                locationToKey (gp 1 1) \<mapsto> calculateBaseDistance (gp 0 0) (gp 1 1)],
      fScore = [locationToKey (gp 0 0) \<mapsto> calculateBaseDistance (gp 0 0) e,
                locationToKey (gp (- 1) (- 1)) \<mapsto>
                  calculateBaseDistance (gp 0 0) (gp (- 1) (- 1)) + calculateBaseDistance (gp (- 1) (- 1)) e,
                locationToKey (gp (- 1) 0) \<mapsto>
                  calculateBaseDistance (gp 0 0) (gp (- 1) 0) + calculateBaseDistance (gp (- 1) 0) e,
                locationToKey (gp (- 1) 1) \<mapsto>
                  calculateBaseDistance (gp 0 0) (gp (- 1) 1) + calculateBaseDistance (gp (- 1) 1) e,
                locationToKey (gp 0 (- 1)) \<mapsto>
                  calculateBaseDistance (gp 0 0) (gp 0 (- 1)) + calculateBaseDistance (gp 0 (- 1)) e,
                locationToKey (gp 0 1) \<mapsto>
                  calculateBaseDistance (gp 0 0) (gp 0 1) + calculateBaseDistance (gp 0 1) e,
                locationToKey (gp 1 (- 1)) \<mapsto>
                  calculateBaseDistance (gp 0 0) (gp 1 (- 1)) + calculateBaseDistance (gp 1 (- 1)) e,
                locationToKey (gp 1 0) \<mapsto>
                  calculateBaseDistance (gp 0 0) (gp 1 0) + calculateBaseDistance (gp 1 0) e,
                locationToKey (gp 1 1) \<mapsto>
                  calculateBaseDistance (gp 0 0) (gp 1 1) + calculateBaseDistance (gp 1 1) e],
      nextRef = 9\<rparr>"

section \<open>Properties of the distance\<close>

lemma hav_a_same: "hav_a phi phi' 0 0 = 0"
  by (simp add: hav_a_def)

lemma hav_a_swap: "hav_a phi2 phi1 (- dphi) (- dlam) = hav_a phi1 phi2 dphi dlam"
  by (simp add: hav_a_def mult.commute)

lemma atan2_zero_one: "atan2 0 1 = 0"
  by (simp add: atan2_def)

lemma calculateBaseDistance_same: "calculateBaseDistance a a = 0"
  by (simp add: calculateBaseDistance_def Let_def hav_a_same atan2_zero_one)

lemma neg_angle: "((x - y) * pi) / 180 = - (((y - x) * pi) / 180)" for x y :: real
proof -
  have "x - y = - (y - x)" by simp
  then have "((x - y) * pi) / 180 = ((- (y - x)) * pi) / 180" by simp
  then show ?thesis by (simp only: mult_minus_left minus_divide_left)
qed

lemma calculateBaseDistance_sym: "calculateBaseDistance a b = calculateBaseDistance b a"
  unfolding calculateBaseDistance_def Let_def
  by (simp only: neg_angle [of "latitude a" "latitude b"]
        neg_angle [of "longitude a" "longitude b"] hav_a_swap)

lemma cos_prod_half: "cos p1 * cos p2 = (cos ((p1 + p2) / 2))\<^sup>2 - (sin ((p2 - p1) / 2))\<^sup>2" for p1 p2 :: real
proof -
  have a: "cos p1 * cos p2 = (cos (p1 - p2) + cos (p1 + p2)) / 2"
    by (simp add: cos_times_cos)
  have e1: "p1 + p2 = 2 * ((p1 + p2) / 2)" by simp
  have b: "cos (p1 + p2) = 2 * (cos ((p1 + p2) / 2))\<^sup>2 - 1"
    by (subst e1) (rule cos_double_cos)
  have e2: "p2 - p1 = 2 * ((p2 - p1) / 2)" by simp
  have "cos (p2 - p1) = 1 - 2 * (sin ((p2 - p1) / 2))\<^sup>2"
    by (subst e2) (rule cos_double_sin)
  moreover have "cos (p1 - p2) = cos (p2 - p1)"
    using cos_minus [of "p2 - p1"] by simp
  ultimately have c: "cos (p1 - p2) = 1 - 2 * (sin ((p2 - p1) / 2))\<^sup>2" by simp
  show ?thesis unfolding a b c by simp
qed

lemma hav_a_decomp:
  "hav_a p1 p2 (p2 - p1) dl =
     (sin ((p2 - p1) / 2))\<^sup>2 * (cos (dl / 2))\<^sup>2 + (cos ((p1 + p2) / 2))\<^sup>2 * (sin (dl / 2))\<^sup>2"
proof -
  define A where "A = (sin ((p2 - p1) / 2))\<^sup>2"
  define C where "C = (cos ((p1 + p2) / 2))\<^sup>2"
  define s where "s = (sin (dl / 2))\<^sup>2"
  have c: "(cos (dl / 2))\<^sup>2 = 1 - s" by (simp add: cos_squared_eq s_def)
  have "hav_a p1 p2 (p2 - p1) dl = A + (cos p1 * cos p2) * s"
    by (simp add: hav_a_def A_def s_def power2_eq_square)
  also have "\<dots> = A + (C - A) * s" by (simp add: cos_prod_half A_def C_def)
  also have "\<dots> = A * (1 - s) + C * s" by (simp add: algebra_simps)
  finally show ?thesis unfolding c by (simp add: A_def C_def s_def)
qed

lemma hav_a_compl:
  "1 - hav_a p1 p2 (p2 - p1) dl =
     (cos ((p2 - p1) / 2))\<^sup>2 * (cos (dl / 2))\<^sup>2 + (sin ((p1 + p2) / 2))\<^sup>2 * (sin (dl / 2))\<^sup>2"
proof -
  have 1: "(sin ((p2 - p1) / 2))\<^sup>2 = 1 - (cos ((p2 - p1) / 2))\<^sup>2" by (simp add: sin_squared_eq)
  have 2: "(cos ((p1 + p2) / 2))\<^sup>2 = 1 - (sin ((p1 + p2) / 2))\<^sup>2" by (simp add: cos_squared_eq)
  have 3: "(cos (dl / 2))\<^sup>2 = 1 - (sin (dl / 2))\<^sup>2" by (simp add: cos_squared_eq)
  show ?thesis
    unfolding hav_a_decomp 3 unfolding 1 2 by (simp add: algebra_simps)
qed

lemma hav_a_nonneg: "0 \<le> hav_a p1 p2 (p2 - p1) dl"
  unfolding hav_a_decomp by simp

lemma hav_a_le_one: "hav_a p1 p2 (p2 - p1) dl \<le> 1"
proof -
  have "0 \<le> 1 - hav_a p1 p2 (p2 - p1) dl" unfolding hav_a_compl by simp
  then show ?thesis by simp
qed

lemma atan2_nonneg: "0 \<le> y \<Longrightarrow> 0 \<le> atan2 y x"
proof -
  assume y: "0 \<le> y"
  have lb: "- (pi / 2) < arctan (y / x)" by (rule arctan_lbound)
  have p: "0 < pi" by (rule pi_gt_zero)
  consider "0 < x" | "x < 0" | "x = 0" "0 < y" | "x = 0" "y = 0" using y by fastforce
  then show ?thesis
  proof cases
    case 1
    then have "0 \<le> arctan (y / x)" using y by simp
    then show ?thesis using 1 by (simp add: atan2_def)
  next
    case 2
    have "0 \<le> arctan (y / x) + pi" using lb p by linarith
    then show ?thesis using 2 y by (simp add: atan2_def)
  next
    case 3
    then show ?thesis using p by (simp add: atan2_def)
  next
    case 4
    then show ?thesis by (simp add: atan2_def)
  qed
qed

lemma angle_diff: "((y - x) * pi) / 180 = (y * pi) / 180 - (x * pi) / 180" for x y :: real
  by (simp add: left_diff_distrib diff_divide_distrib)

lemma calculateBaseDistance_nonneg: "0 \<le> calculateBaseDistance a b"
proof -
  have "0 \<le> hav_a ((latitude a * pi) / 180) ((latitude b * pi) / 180)
              (((latitude b - latitude a) * pi) / 180) (((longitude b - longitude a) * pi) / 180)"
    unfolding angle_diff [of "latitude b" "latitude a"] by (rule hav_a_nonneg)
  then have "0 \<le> atan2 (sqrt (hav_a ((latitude a * pi) / 180) ((latitude b * pi) / 180)
              (((latitude b - latitude a) * pi) / 180) (((longitude b - longitude a) * pi) / 180)))
             (sqrt (1 - hav_a ((latitude a * pi) / 180) ((latitude b * pi) / 180)
              (((latitude b - latitude a) * pi) / 180) (((longitude b - longitude a) * pi) / 180)))"
    by (intro atan2_nonneg) simp
  then show ?thesis
    by (simp add: calculateBaseDistance_def Let_def)
qed

lemma atan2_sin_cos:
  assumes "0 \<le> x" "x \<le> pi / 2"
  shows "atan2 (sqrt ((sin x)\<^sup>2)) (sqrt (1 - (sin x)\<^sup>2)) = x"
proof -
  have s: "0 \<le> sin x" using assms pi_gt_zero by (intro sin_ge_zero) linarith+
  have c: "0 \<le> cos x" using assms by (intro cos_ge_zero) linarith+
  have 1: "sqrt ((sin x)\<^sup>2) = sin x" using s by simp
  have "1 - (sin x)\<^sup>2 = (cos x)\<^sup>2" by (simp add: cos_squared_eq)
  then have 2: "sqrt (1 - (sin x)\<^sup>2) = cos x" using c by simp
  show ?thesis
  proof (cases "x = pi / 2")
    case True
    have sc: "sin x = 1" "cos x = 0" unfolding True by simp_all
    have "atan2 1 0 = pi / 2" by (simp add: atan2_def)
    then show ?thesis unfolding True by simp
  next
    case False
    then have lt: "x < pi / 2" using assms by simp
    have "- (pi / 2) < x" using assms pi_gt_zero by linarith
    then have cp: "0 < cos x" using lt by (intro cos_gt_zero_pi)
    have "arctan (sin x / cos x) = x"
      using arctan_tan [of x] lt \<open>- (pi / 2) < x\<close> by (simp add: tan_def)
    then show ?thesis unfolding 1 2 using cp by (simp add: atan2_def)
  qed
qed

lemma hav_dist_abs:
  assumes "\<bar>t\<bar> \<le> pi"
  shows "2 * atan2 (sqrt (sin (t / 2) * sin (t / 2))) (sqrt (1 - sin (t / 2) * sin (t / 2))) = \<bar>t\<bar>"
proof -
  have e: "sin (t / 2) * sin (t / 2) = (sin (\<bar>t\<bar> / 2))\<^sup>2"
    by (cases "0 \<le> t") (simp_all add: power2_eq_square abs_if)
  have "atan2 (sqrt ((sin (\<bar>t\<bar> / 2))\<^sup>2)) (sqrt (1 - (sin (\<bar>t\<bar> / 2))\<^sup>2)) = \<bar>t\<bar> / 2"
    using assms by (intro atan2_sin_cos) simp_all
  then show ?thesis unfolding e by simp
qed

lemma dist_meridian:
  assumes "longitude a = longitude b" "\<bar>latitude b - latitude a\<bar> \<le> 180"
  shows "calculateBaseDistance a b = 6371000 * (\<bar>latitude b - latitude a\<bar> * pi / 180)"
proof -
  define t where "t = ((latitude b - latitude a) * pi) / 180"
  have ta: "\<bar>t\<bar> = \<bar>latitude b - latitude a\<bar> * pi / 180"
    by (simp add: t_def abs_mult)
  have "\<bar>latitude b - latitude a\<bar> * pi \<le> 180 * pi"
    using assms(2) pi_gt_zero by (intro mult_right_mono) simp_all
  then have tb: "\<bar>t\<bar> \<le> pi" unfolding ta by simp
  have "calculateBaseDistance a b =
      6371000 * (2 * atan2 (sqrt (sin (t / 2) * sin (t / 2))) (sqrt (1 - sin (t / 2) * sin (t / 2))))"
    using assms(1) by (simp add: calculateBaseDistance_def Let_def hav_a_def t_def)
  also have "\<dots> = 6371000 * \<bar>t\<bar>" using hav_dist_abs [OF tb] by simp
  finally show ?thesis unfolding ta .
qed

lemma dist_equator:
  assumes "latitude a = 0" "latitude b = 0" "\<bar>longitude b - longitude a\<bar> \<le> 180"
  shows "calculateBaseDistance a b = 6371000 * (\<bar>longitude b - longitude a\<bar> * pi / 180)"
proof -
  define t where "t = ((longitude b - longitude a) * pi) / 180"
  have ta: "\<bar>t\<bar> = \<bar>longitude b - longitude a\<bar> * pi / 180"
    by (simp add: t_def abs_mult)
  have "\<bar>longitude b - longitude a\<bar> * pi \<le> 180 * pi"
    using assms(3) pi_gt_zero by (intro mult_right_mono) simp_all
  then have tb: "\<bar>t\<bar> \<le> pi" unfolding ta by simp
  have "calculateBaseDistance a b =
      6371000 * (2 * atan2 (sqrt (sin (t / 2) * sin (t / 2))) (sqrt (1 - sin (t / 2) * sin (t / 2))))"
    using assms(1,2) by (simp add: calculateBaseDistance_def Let_def hav_a_def t_def)
  also have "\<dots> = 6371000 * \<bar>t\<bar>" using hav_dist_abs [OF tb] by simp
  finally show ?thesis unfolding ta .
qed

subsection \<open>The distance as an arc sine\<close>

lemma atan2_arcsin:
  assumes "0 \<le> a" "a \<le> 1"
  shows "atan2 (sqrt a) (sqrt (1 - a)) = arcsin (sqrt a)"
proof -
  define t where "t = arcsin (sqrt a)"
  have r: "0 \<le> sqrt a" "sqrt a \<le> 1" using assms by simp_all
  have t0: "0 \<le> t" unfolding t_def using r by (intro arcsin_nonneg) simp
  have r': "- 1 \<le> sqrt a" using r(1) by linarith
  have t1: "t \<le> pi / 2" unfolding t_def using r r' by (intro arcsin_ubound)
  have "sin t = sqrt a" unfolding t_def using r r' by (intro sin_arcsin)
  then have "(sin t)\<^sup>2 = a" using assms by simp
  then show ?thesis using atan2_sin_cos [OF t0 t1] by (simp add: t_def)
qed

lemma calculateBaseDistance_arcsin:
  "calculateBaseDistance a b =
     6371000 * (2 * arcsin (sqrt (hav_a ((latitude a * pi) / 180) ((latitude b * pi) / 180)
        ((latitude b * pi) / 180 - (latitude a * pi) / 180)
        (((longitude b - longitude a) * pi) / 180))))"
proof -
  let ?a = "hav_a ((latitude a * pi) / 180) ((latitude b * pi) / 180)
        ((latitude b * pi) / 180 - (latitude a * pi) / 180)
        (((longitude b - longitude a) * pi) / 180)"
  have "atan2 (sqrt ?a) (sqrt (1 - ?a)) = arcsin (sqrt ?a)"
    by (intro atan2_arcsin hav_a_nonneg hav_a_le_one)
  then show ?thesis
    unfolding calculateBaseDistance_def Let_def angle_diff [of "latitude b" "latitude a"] by simp
qed

lemma arcsin_sqrt_lower:
  assumes "0 \<le> t" "t \<le> pi / 2" "(sin t)\<^sup>2 \<le> a" "a \<le> 1"
  shows "t \<le> arcsin (sqrt a)"
proof -
  have s0: "0 \<le> sin t" using assms(1,2) pi_gt_zero by (intro sin_ge_zero) linarith+
  have "sqrt ((sin t)\<^sup>2) \<le> sqrt a" using assms(3) by (rule real_sqrt_le_mono)
  then have le: "sin t \<le> sqrt a" using s0 by simp
  have "sqrt a \<le> 1" using assms(4) by simp
  have "arcsin (sin t) \<le> arcsin (sqrt a)"
    using le \<open>sqrt a \<le> 1\<close> by (intro arcsin_le_arcsin) simp_all
  moreover have "arcsin (sin t) = t"
    using assms(1,2) pi_gt_zero by (intro arcsin_sin) linarith+
  ultimately show ?thesis by simp
qed

subsection \<open>Bounds on the sine and on \<open>pi\<close>\<close>

lemma sin_lower:
  fixes x :: real
  assumes "0 \<le> x"
  shows "x - x ^ 3 / 6 \<le> sin x"
proof -
  have "(\<Sum>m<3. sin_coeff m * x ^ m) = x"
    by (simp add: sin_coeff_def eval_nat_numeral lessThan_Suc)
  then have "\<bar>sin x - x\<bar> \<le> inverse (fact 3) * \<bar>x\<bar> ^ 3"
    using Maclaurin_sin_bound [of x 3] by simp
  moreover have "inverse (fact 3) * \<bar>x\<bar> ^ 3 = x ^ 3 / 6"
    using assms by (simp add: eval_nat_numeral)
  ultimately show ?thesis by linarith
qed

lemma pi_le_bound: "pi \<le> 33 / 10"
proof -
  define y where "y = pi / 6"
  have y0: "0 \<le> y" and y1: "y \<le> 2 / 3" unfolding y_def using pi_less_4 by simp_all
  have "y - y ^ 3 / 6 \<le> sin y" using y0 by (rule sin_lower)
  then have 1: "y - y ^ 3 / 6 \<le> 1 / 2" unfolding y_def by (simp add: sin_30)
  have "y ^ 3 \<le> (2 / 3) ^ 3" using y0 y1 by (intro power_mono)
  then have "y ^ 3 / 6 \<le> 4 / 81" by (simp add: eval_nat_numeral)
  then have "y \<le> 1 / 2 + 4 / 81" using 1 by linarith
  then show ?thesis unfolding y_def by simp
qed

lemma pi_ge_three: "3 \<le> pi"
proof -
  have "sin (pi / 6) \<le> pi / 6" by (intro sin_x_le_x) simp
  then show ?thesis by (simp add: sin_30)
qed

subsection \<open>Sines of odd multiples\<close>

lemma sin_sq_shift: "(sin (x + of_int q * pi))\<^sup>2 = (sin x)\<^sup>2"
proof -
  have "sin (x + of_int q * pi) = sin x * cos (pi * of_int q) + cos x * sin (pi * of_int q)"
    by (simp add: sin_add mult.commute)
  also have "\<dots> = sin x * (if even q then 1 else - 1)" by simp
  finally show ?thesis by (simp add: power2_eq_square)
qed

lemma sin_ge_on_arc:
  assumes "0 \<le> t" "t \<le> x" "x \<le> pi - t"
  shows "sin t \<le> sin x"
proof (cases "x \<le> pi / 2")
  case True
  show ?thesis using assms(1,2) True pi_gt_zero by (intro sin_monotone_2pi_le) linarith+
next
  case False
  have "sin t \<le> sin (pi - x)"
    using assms False pi_gt_zero by (intro sin_monotone_2pi_le) linarith+
  then show ?thesis by simp
qed

lemma sin_sq_odd_multiple:
  fixes m N :: int
  assumes "odd m" "even N" "2 \<le> N"
  shows "(sin (pi / of_int N))\<^sup>2 \<le> (sin (of_int m * (pi / of_int N)))\<^sup>2"
proof -
  define r where "r = m mod N"
  define q where "q = m div N"
  have N0: "0 < N" using assms(3) by simp
  have m: "m = q * N + r" unfolding r_def q_def by simp
  have r0: "0 \<le> r" and rN: "r < N" unfolding r_def using N0 by simp_all
  have "odd r" using assms(1,2) m by auto
  then have r1: "1 \<le> r" using r0 by (cases "r = 0") auto
  have rN1: "r \<le> N - 1" using rN by simp
  define t where "t = pi / of_int N"
  have tp: "0 < t" unfolding t_def using N0 by simp
  have Nt: "of_int N * t = pi" unfolding t_def using N0 by simp
  have "of_int m * t = of_int r * t + of_int q * (of_int N * t)"
    unfolding m by (simp add: algebra_simps)
  then have e: "of_int m * t = of_int r * t + of_int q * pi" unfolding Nt .
  have lo: "t \<le> of_int r * t"
  proof -
    have "1 * t \<le> of_int r * t" using r1 tp by (intro mult_right_mono) simp_all
    then show ?thesis by simp
  qed
  have hi: "of_int r * t \<le> pi - t"
  proof -
    have "of_int r * t \<le> of_int (N - 1) * t" using rN1 tp by (intro mult_right_mono) simp_all
    also have "\<dots> = of_int N * t - t" by (simp add: algebra_simps)
    finally show ?thesis unfolding Nt .
  qed
  have s: "sin t \<le> sin (of_int r * t)" using tp lo hi by (intro sin_ge_on_arc) simp_all
  have "t \<le> pi" using lo hi tp by linarith
  then have s0: "0 \<le> sin t" using tp by (intro sin_ge_zero) simp_all
  have "(sin t)\<^sup>2 \<le> (sin (of_int r * t))\<^sup>2" using s s0 by (intro power_mono) simp_all
  also have "\<dots> = (sin (of_int m * t))\<^sup>2" unfolding e sin_sq_shift ..
  finally show ?thesis unfolding t_def .
qed

subsection \<open>The distance between two named points\<close>

lemma loc_simps [simp]: "latitude (loc la lo) = la" "longitude (loc la lo) = lo"
  by (simp_all add: loc_def)

lemma dist_step_north: "calculateBaseDistance (loc 0 0) (loc 0.0001 0) = 6371000 * (0.0001 * pi / 180)"
  using dist_meridian [of "loc 0 0" "loc 0.0001 0"] by simp

lemma dist_step_north_pos: "0 < calculateBaseDistance (loc 0 0) (loc 0.0001 0)"
  unfolding dist_step_north by simp

lemma dist_origin_north_pos: "0 < calculateBaseDistance origin north"
  unfolding origin_def north_def by (rule dist_step_north_pos)

lemma dist_origin_north: "calculateBaseDistance origin north = 6371000 * (0.0001 * pi / 180)"
  unfolding origin_def north_def by (rule dist_step_north)

section \<open>Distances between grid points\<close>

lemma gp_simps [simp]:
  "latitude (gp i j) = of_int i * gridSize" "longitude (gp i j) = of_int j * gridSize"
  by (simp_all add: gp_def)

lemma key_gp_eq [simp]: "locationToKey (gp i j) = locationToKey (gp i' j') \<longleftrightarrow> i = i' \<and> j = j'"
  by (simp add: locationToKey_def gridSize_def)

lemma gp_eq [simp]: "gp i j = gp i' j' \<longleftrightarrow> i = i' \<and> j = j'"
  by (auto simp add: gp_def loc_def gridSize_def)

lemma origin_gp: "origin = gp 0 0"
  by (simp add: origin_def gp_def)

lemma gridNeighbors_gp:
  "gridNeighbors (gp i j) =
     [gp (i - 1) (j - 1), gp (i - 1) j, gp (i - 1) (j + 1),
      gp i (j - 1), gp i (j + 1),
      gp (i + 1) (j - 1), gp (i + 1) j, gp (i + 1) (j + 1)]"
  by (simp add: gridNeighbors_def gp_def loc_def algebra_simps)

lemma gp_angle: "(of_int i * gridSize * pi) / 180 = of_int i * delta"
  by (simp add: gridSize_def delta_def)

lemma dist_gp:
  "calculateBaseDistance (gp i j) (gp i' j') =
     6371000 * (2 * arcsin (sqrt (hgrid (i' - i) (i + i') (j' - j))))"
proof -
  have dl: "((of_int j' * gridSize - of_int j * gridSize) * pi) / 180 = of_int (j' - j) * delta"
    by (simp add: gridSize_def delta_def field_simps)
  have 1: "(of_int i' * delta - of_int i * delta) / 2 = of_int (i' - i) * delta / 2"
    by (simp add: algebra_simps)
  have 2: "(of_int i * delta + of_int i' * delta) / 2 = of_int (i + i') * delta / 2"
    by (simp add: algebra_simps)
  show ?thesis
    unfolding calculateBaseDistance_arcsin gp_simps dl gp_angle hav_a_decomp 1 2 hgrid_def ..
qed

lemma hgrid_abs: "hgrid di si dj = hgrid \<bar>di\<bar> \<bar>si\<bar> \<bar>dj\<bar>"
proof -
  have s: "(sin (of_int k * delta / 2))\<^sup>2 = (sin (of_int \<bar>k\<bar> * delta / 2))\<^sup>2" for k :: int
    by (cases "0 \<le> k") (simp_all add: power2_eq_square)
  have c: "(cos (of_int k * delta / 2))\<^sup>2 = (cos (of_int \<bar>k\<bar> * delta / 2))\<^sup>2" for k :: int
    by (cases "0 \<le> k") (simp_all add: power2_eq_square)
  show ?thesis unfolding hgrid_def s [of di] s [of dj] c [of si] c [of dj] ..
qed

lemma delta_pos: "0 < delta"
  by (simp add: delta_def)

lemma delta_small: "delta \<le> 1 / 500000"
  unfolding delta_def using pi_le_bound by simp

lemma arcsin_sqrt_sin:
  assumes "0 \<le> t" "t \<le> pi / 2"
  shows "arcsin (sqrt ((sin t)\<^sup>2)) = t"
proof -
  have "0 \<le> sin t" using assms pi_gt_zero by (intro sin_ge_zero) linarith+
  then have "sqrt ((sin t)\<^sup>2) = sin t" by simp
  then show ?thesis using assms pi_gt_zero by (simp add: arcsin_sin)
qed

lemma dist_gp_straight:
  assumes "dj = 0 \<or> (di = 0 \<and> si = 0)" "0 \<le> k" "k \<le> 100" "k = (if dj = 0 then \<bar>di\<bar> else \<bar>dj\<bar>)"
  shows "6371000 * (2 * arcsin (sqrt (hgrid di si dj))) = of_int k * stepLength"
proof -
  have h: "hgrid di si dj = (sin (of_int k * delta / 2))\<^sup>2"
  proof (cases "dj = 0")
    case True
    then have "hgrid \<bar>di\<bar> \<bar>si\<bar> \<bar>dj\<bar> = (sin (of_int k * delta / 2))\<^sup>2"
      using assms(4) by (simp add: hgrid_def)
    then show ?thesis using hgrid_abs [of di si dj] by simp
  next
    case False
    then have "hgrid \<bar>di\<bar> \<bar>si\<bar> \<bar>dj\<bar> = (sin (of_int k * delta / 2))\<^sup>2"
      using assms(1,4) by (simp add: hgrid_def)
    then show ?thesis using hgrid_abs [of di si dj] by simp
  qed
  have t0: "0 \<le> of_int k * delta / 2" using assms(2) delta_pos by simp
  have "of_int k * delta \<le> 100 * (1 / 500000)"
    using assms(2,3) delta_small delta_pos by (intro mult_mono) simp_all
  then have t1: "of_int k * delta / 2 \<le> pi / 2" using pi_ge_two by simp
  show ?thesis unfolding h arcsin_sqrt_sin [OF t0 t1] stepLength_def by simp
qed

lemma dist_gp_equator:
  assumes "\<bar>j' - j\<bar> \<le> 100"
  shows "calculateBaseDistance (gp 0 j) (gp 0 j') = of_int \<bar>j' - j\<bar> * stepLength"
  unfolding dist_gp using assms by (intro dist_gp_straight) auto

lemma dist_gp_meridian:
  assumes "\<bar>i' - i\<bar> \<le> 100"
  shows "calculateBaseDistance (gp i j) (gp i' j) = of_int \<bar>i' - i\<bar> * stepLength"
  unfolding dist_gp using assms by (intro dist_gp_straight) auto

lemma hgrid_diagonal: "hgrid 1 1 1 = (sin delta)\<^sup>2 / 2"
proof -
  have "sin delta = 2 * sin (delta / 2) * cos (delta / 2)"
    using sin_double [of "delta / 2"] by simp
  then have "(sin delta)\<^sup>2 = 4 * (sin (delta / 2))\<^sup>2 * (cos (delta / 2))\<^sup>2"
    by (simp add: power2_eq_square)
  then show ?thesis by (simp add: hgrid_def)
qed

lemma dist_gp_diagonal:
  assumes "\<bar>i' - i\<bar> = 1" "\<bar>i + i'\<bar> = 1" "\<bar>j' - j\<bar> = 1"
  shows "calculateBaseDistance (gp i j) (gp i' j') = diagonalLength"
  unfolding dist_gp hgrid_abs [of "i' - i" "i + i'" "j' - j"] assms hgrid_diagonal diagonalLength_def ..

lemma stepLength_ge: "10 \<le> stepLength"
  unfolding stepLength_def delta_def using pi_ge_three by simp

lemma hgrid_le_one: "hgrid di si dj \<le> 1"
proof -
  have "hgrid di si dj \<le> 1 * (cos (of_int dj * delta / 2))\<^sup>2 + 1 * (sin (of_int dj * delta / 2))\<^sup>2"
    unfolding hgrid_def by (intro add_mono mult_right_mono) (simp_all add: abs_square_le_1)
  then show ?thesis by simp
qed

lemma hgrid_nonneg: "0 \<le> hgrid di si dj"
  by (simp add: hgrid_def)

lemma arcsin_sqrt_greater:
  assumes "0 \<le> t" "t \<le> pi / 2" "(sin t)\<^sup>2 < a" "a \<le> 1"
  shows "t < arcsin (sqrt a)"
proof -
  have s0: "0 \<le> sin t" using assms(1,2) pi_gt_zero by (intro sin_ge_zero) linarith+
  have "sin t < sqrt a" using assms(3) by (rule real_less_rsqrt)
  moreover have "sqrt a \<le> 1" using assms(4) by simp
  ultimately have "arcsin (sin t) < arcsin (sqrt a)" using s0 by (intro arcsin_less_arcsin) simp_all
  moreover have "arcsin (sin t) = t" using assms(1,2) pi_gt_zero by (intro arcsin_sin) linarith+
  ultimately show ?thesis by simp
qed

lemma arcsin_sqrt_less:
  assumes "0 \<le> t" "t \<le> pi / 2" "0 \<le> a" "a < (sin t)\<^sup>2"
  shows "arcsin (sqrt a) < t"
proof -
  have s0: "0 \<le> sin t" using assms(1,2) pi_gt_zero by (intro sin_ge_zero) linarith+
  have "sqrt a < sin t" using s0 assms(4) by (rule real_less_lsqrt)
  moreover have "- 1 \<le> sqrt a"
  proof -
    have "0 \<le> sqrt a" using assms(3) by simp
    then show ?thesis by linarith
  qed
  ultimately have "arcsin (sqrt a) < arcsin (sin t)" by (intro arcsin_less_arcsin) simp_all
  moreover have "arcsin (sin t) = t" using assms(1,2) pi_gt_zero by (intro arcsin_sin) linarith+
  ultimately show ?thesis by simp
qed

lemma sin_sq_le: "(sin x)\<^sup>2 \<le> x\<^sup>2" for x :: real
proof -
  have "\<bar>sin x\<bar> \<le> \<bar>x\<bar>" by (rule abs_sin_x_le_abs_x)
  then show ?thesis by (metis abs_le_square_iff)
qed

lemma diagonalLength_less: "diagonalLength < 20"
proof -
  define t :: real where "t = 10 / 6371000"
  define q :: real where "q = 1569 / 10 ^ 9"
  have t0: "0 \<le> t" and t1: "t \<le> pi / 2" unfolding t_def using pi_ge_two by simp_all
  have "q \<le> t - t ^ 3 / 6" unfolding q_def t_def by (simp add: eval_nat_numeral)
  also have "\<dots> \<le> sin t" using t0 by (rule sin_lower)
  finally have qs: "q \<le> sin t" .
  have q0: "0 \<le> q" unfolding q_def by simp
  have "q\<^sup>2 \<le> (sin t)\<^sup>2" using qs q0 by (intro power_mono)
  have d: "delta \<le> 33 / 18000000" unfolding delta_def using pi_le_bound by simp
  have "(sin delta)\<^sup>2 / 2 \<le> delta\<^sup>2 / 2" using sin_sq_le [of delta] by simp
  also have "delta\<^sup>2 \<le> (33 / 18000000)\<^sup>2" using d delta_pos by (intro power_mono) simp_all
  finally have "(sin delta)\<^sup>2 / 2 \<le> (33 / 18000000)\<^sup>2 / 2" by simp
  also have "(33 / 18000000)\<^sup>2 / 2 < q\<^sup>2" unfolding q_def by (simp add: power2_eq_square)
  finally have "(sin delta)\<^sup>2 / 2 < (sin t)\<^sup>2" using \<open>q\<^sup>2 \<le> (sin t)\<^sup>2\<close> by simp
  then have "arcsin (sqrt ((sin delta)\<^sup>2 / 2)) < t"
    using t0 t1 by (intro arcsin_sqrt_less) simp_all
  then have "diagonalLength < 6371000 * (2 * t)" unfolding diagonalLength_def by simp
  then show ?thesis unfolding t_def by simp
qed

lemma sin_delta_lower: "99 / 100 * delta \<le> sin delta"
proof -
  have "delta\<^sup>2 \<le> (1 / 500000)\<^sup>2" using delta_small delta_pos by (intro power_mono) simp_all
  then have "delta\<^sup>2 / 6 \<le> 1 / 100" by (simp add: power2_eq_square)
  then have "delta * (delta\<^sup>2 / 6) \<le> delta * (1 / 100)"
    using delta_pos by (intro mult_left_mono) simp_all
  moreover have "delta ^ 3 / 6 = delta * (delta\<^sup>2 / 6)" by (simp add: eval_nat_numeral)
  ultimately have "delta - delta / 100 \<le> delta - delta ^ 3 / 6" by simp
  also have "\<dots> \<le> sin delta" using delta_pos by (intro sin_lower) simp
  finally show ?thesis by simp
qed

lemma diagonalLength_greater: "133 / 100 * stepLength < diagonalLength"
proof -
  define b where "b = 665 / 1000 * delta"
  have b0: "0 \<le> b" unfolding b_def using delta_pos by simp
  have "b \<le> 1" unfolding b_def using delta_small by simp
  then have b1: "b \<le> pi / 2" using pi_ge_two by simp
  have "(sin b)\<^sup>2 \<le> b\<^sup>2" by (rule sin_sq_le)
  also have "b\<^sup>2 < (99 / 100 * delta)\<^sup>2 / 2"
    unfolding b_def using delta_pos by (simp add: power2_eq_square field_simps)
  also have "(99 / 100 * delta)\<^sup>2 \<le> (sin delta)\<^sup>2"
    using sin_delta_lower delta_pos by (intro power_mono) simp_all
  finally have "(sin b)\<^sup>2 < (sin delta)\<^sup>2 / 2" by simp
  moreover have "(sin delta)\<^sup>2 / 2 \<le> 1"
    using abs_square_le_1 [of "sin delta"] by simp
  ultimately have "b < arcsin (sqrt ((sin delta)\<^sup>2 / 2))"
    using b0 b1 by (intro arcsin_sqrt_greater)
  then have "6371000 * (2 * b) < diagonalLength" unfolding diagonalLength_def by simp
  then show ?thesis unfolding b_def stepLength_def by simp
qed

lemma hgrid_far_2: "(sin delta)\<^sup>2 < hgrid 1 1 2"
proof -
  define s where "s = sin (delta / 2)"
  have d2: "delta / 2 < pi" "2 * delta < pi / 2" "0 < delta / 2"
    using delta_small delta_pos pi_ge_two by simp_all
  have sp: "0 < s" unfolding s_def using d2 by (intro sin_gt_zero)
  have cp: "0 < cos (2 * delta)" using d2 delta_pos by (intro cos_gt_zero) simp_all
  have c2: "(cos (delta / 2))\<^sup>2 = 1 - s\<^sup>2" unfolding s_def by (simp add: cos_squared_eq)
  have "hgrid 1 1 2 = s\<^sup>2 * (cos delta)\<^sup>2 + (1 - s\<^sup>2) * (sin delta)\<^sup>2"
    by (simp add: hgrid_def s_def c2 [unfolded s_def])
  also have "\<dots> = (sin delta)\<^sup>2 + s\<^sup>2 * ((cos delta)\<^sup>2 - (sin delta)\<^sup>2)"
    by (simp add: algebra_simps)
  also have "(cos delta)\<^sup>2 - (sin delta)\<^sup>2 = cos (2 * delta)" by (simp add: cos_double)
  finally have "hgrid 1 1 2 = (sin delta)\<^sup>2 + s\<^sup>2 * cos (2 * delta)" .
  moreover have "0 < s\<^sup>2 * cos (2 * delta)" using sp cp by simp
  ultimately show ?thesis by simp
qed

lemma hgrid_far_3: "(sin delta)\<^sup>2 < hgrid 1 1 3"
proof -
  have d: "0 < delta" "2 * delta \<le> pi / 2" "delta < pi"
    using delta_small delta_pos pi_ge_two by simp_all
  have sd: "0 < sin delta" using d by (intro sin_gt_zero)
  have "sin delta < sin (2 * delta)" using d by (intro sin_monotone_2pi) simp_all
  then have lt: "sin delta < (sin (2 * delta) + sin delta) / 2" by simp
  have "sin (3 * delta / 2) * cos (delta / 2) = (sin (2 * delta) + sin delta) / 2"
    by (simp add: sin_times_cos)
  then have p: "sin delta < sin (3 * delta / 2) * cos (delta / 2)" using lt by simp
  have "(sin delta)\<^sup>2 < (sin (3 * delta / 2) * cos (delta / 2))\<^sup>2"
    using p sd by (intro power_strict_mono) simp_all
  also have "\<dots> = (cos (delta / 2))\<^sup>2 * (sin (3 * delta / 2))\<^sup>2"
    by (simp add: power_mult_distrib mult.commute)
  also have "\<dots> \<le> hgrid 1 1 3" by (simp add: hgrid_def)
  finally show ?thesis .
qed

lemma dist_gp_far:
  assumes "\<bar>i' - i\<bar> = 1" "\<bar>i + i'\<bar> = 1" "\<bar>j' - j\<bar> = 2 \<or> \<bar>j' - j\<bar> = 3"
  shows "2 * stepLength < calculateBaseDistance (gp i j) (gp i' j')"
proof -
  have d: "0 \<le> delta" "delta \<le> pi / 2" using delta_small delta_pos pi_ge_two by simp_all
  have "(sin delta)\<^sup>2 < hgrid (i' - i) (i + i') (j' - j)"
    using assms(3) hgrid_far_2 hgrid_far_3
    unfolding hgrid_abs [of "i' - i" "i + i'" "j' - j"] assms(1,2) by auto
  then have "delta < arcsin (sqrt (hgrid (i' - i) (i + i') (j' - j)))"
    using d hgrid_le_one by (intro arcsin_sqrt_greater)
  then show ?thesis unfolding dist_gp stepLength_def by simp
qed

lemma step_lt_diagonal: "stepLength < diagonalLength"
  using diagonalLength_greater stepLength_ge by linarith

section \<open>Rounding to doubles\<close>

subsection \<open>The nearest integer\<close>

lemma roundEven_error: "\<bar>of_int (roundEven r) - r\<bar> \<le> 1 / 2"
  unfolding roundEven_def Let_def by (auto simp: abs_le_iff) (linarith+)?

lemma roundEven_eqI:
  assumes "\<bar>r - of_int m\<bar> < 1 / 2"
  shows "roundEven r = m"
proof -
  have "\<bar>of_int (roundEven r) - r\<bar> \<le> 1 / 2" by (rule roundEven_error)
  with assms have "\<bar>(of_int (roundEven r) :: real) - of_int m\<bar> < 1" by linarith
  hence "\<bar>of_int (roundEven r - m) :: real\<bar> < 1" by simp
  hence "\<bar>roundEven r - m\<bar> < 1" by (metis of_int_abs of_int_less_1_iff)
  thus ?thesis by simp
qed

lemma roundEven_of_int [simp]: "roundEven (of_int m) = m"
  by (rule roundEven_eqI) simp

lemma roundEven_uminus: "roundEven (- r) = - roundEven r"
proof (cases "r \<in> \<int>")
  case True
  then obtain m where "r = of_int m" by (auto elim: Ints_cases)
  thus ?thesis by (simp flip: of_int_minus)
next
  case False
  have ne: "r \<noteq> of_int \<lfloor>r\<rfloor>" using False by (metis Ints_of_int)
  hence fl: "\<lfloor>- r\<rfloor> = - \<lfloor>r\<rfloor> - 1" by (simp add: floor_minus ceiling_altdef)
  have lt: "of_int \<lfloor>r\<rfloor> < r" using ne by (metis floor_correct order_less_le)
  show ?thesis
    unfolding roundEven_def Let_def fl using lt
    by (auto simp: not_less) (linarith+)?
qed

lemma roundEven_le:
  assumes "r \<le> of_int N" shows "roundEven r \<le> N"
proof -
  have "roundEven r \<le> \<lceil>r\<rceil>"
    unfolding roundEven_def Let_def by (auto simp: ceiling_altdef) (linarith+)?
  also have "\<dots> \<le> N" using assms by (simp add: ceiling_le)
  finally show ?thesis .
qed

lemma roundEven_ge:
  assumes "of_int N \<le> r" shows "N \<le> roundEven r"
proof -
  have "\<lfloor>r\<rfloor> \<le> roundEven r"
    unfolding roundEven_def Let_def by auto
  moreover have "N \<le> \<lfloor>r\<rfloor>" using assms by (simp add: le_floor_iff)
  ultimately show ?thesis by simp
qed

subsection \<open>The value of a rounding\<close>

text \<open>
  A real \<open>x\<close> with \<open>2 ^ 52 \<le> \<bar>x\<bar> * 2 ^ k < 2 ^ 53\<close> lies between two neighbouring multiples of
  \<open>1 / 2 ^ k\<close> that are doubles, and is rounded to the nearer one.
\<close>

lemma binade_eqI:
  assumes "2 ^ 52 \<le> \<bar>x\<bar> * 2 ^ k" and "\<bar>x\<bar> * 2 ^ k < 2 ^ 53" and "k \<le> 1074"
  shows "binade x = 52 - int k"
proof -
  have pos: "0 < \<bar>x\<bar>" using assms(1) by (cases "x = 0") simp_all
  have p1: "2 powr of_int (52 - int k) = (2::real) ^ 52 / 2 ^ k"
    by (simp add: powr_diff powr_realpow)
  have p2: "2 powr of_int (52 - int k + 1) = (2::real) ^ 53 / 2 ^ k"
    by (simp add: powr_diff powr_realpow add.commute [of _ 1] powr_add)
  have "2 powr of_int (52 - int k) \<le> \<bar>x\<bar>"
    unfolding p1 using assms(1) by (simp add: field_simps)
  moreover have "\<bar>x\<bar> < 2 powr of_int (52 - int k + 1)"
    unfolding p2 using assms(2) by (simp add: field_simps)
  ultimately have "\<lfloor>log 2 \<bar>x\<bar>\<rfloor> = 52 - int k"
    using floor_log_eq_powr_iff [OF pos, of 2 "52 - int k"] by simp
  thus ?thesis using assms(3) by (simp add: binade_def)
qed

lemma fl_normal:
  assumes "2 ^ 52 \<le> \<bar>x\<bar> * 2 ^ k" and "\<bar>x\<bar> * 2 ^ k < 2 ^ 53" and "k \<le> 1074"
    and "\<bar>x * 2 ^ k - of_int m\<bar> < 1 / 2"
  shows "fl x = Fin (of_int m / 2 ^ k)"
proof -
  have nz: "x \<noteq> 0" using assms(1) by auto
  have b: "binade x = 52 - int k" by (rule binade_eqI) (rule assms)+
  have u: "2 powr (of_int (binade x) - 52) = 1 / (2::real) ^ k"
    unfolding b by (simp add: powr_minus powr_realpow field_simps)
  have r: "roundEven (x / (1 / 2 ^ k)) = m"
    by (rule roundEven_eqI) (use assms(4) in simp)
  have "\<bar>x * 2 ^ k\<bar> = \<bar>x\<bar> * 2 ^ k" by (simp add: abs_mult)
  hence "\<bar>real_of_int m\<bar> < \<bar>x\<bar> * 2 ^ k + 1 / 2"
    using assms(4) by linarith
  hence m54: "\<bar>real_of_int m\<bar> < 2 ^ 54" using assms(2) by simp
  have "\<bar>real_of_int m\<bar> / 2 ^ k \<le> \<bar>real_of_int m\<bar> / 1"
    by (rule divide_left_mono) simp_all
  hence "\<bar>real_of_int m / 2 ^ k\<bar> < 2 ^ 54" using m54 by (simp add: abs_divide)
  moreover have "(2::real) ^ 54 \<le> 2 ^ 1024" by (rule power_increasing) simp_all
  ultimately have small: "\<not> 2 ^ 1024 \<le> \<bar>real_of_int m / 2 ^ k\<bar>"
    by linarith
  show ?thesis
    unfolding fl_def Let_def u r using nz small by simp
qed

lemma fl_enclosed:
  assumes "\<bar>x * 2 ^ k - of_int m\<bar> < 1 / 2" and "2 ^ 52 < \<bar>m\<bar>" and "\<bar>m\<bar> < 2 ^ 53"
    and "k \<le> 1074"
  shows "fl x = Fin (of_int m / 2 ^ k)"
proof (rule fl_normal)
  have a: "\<bar>x\<bar> * 2 ^ k = \<bar>x * 2 ^ k\<bar>" by (simp add: abs_mult)
  have "2 ^ 52 + 1 \<le> \<bar>m\<bar>" using assms(2) by simp
  hence "real_of_int (2 ^ 52 + 1) \<le> real_of_int \<bar>m\<bar>" by (simp only: of_int_le_iff)
  hence "(2::real) ^ 52 + 1 \<le> \<bar>of_int m\<bar>" by simp
  thus "2 ^ 52 \<le> \<bar>x\<bar> * 2 ^ k" unfolding a using assms(1) by linarith
  have "\<bar>m\<bar> \<le> 2 ^ 53 - 1" using assms(3) by simp
  hence "real_of_int \<bar>m\<bar> \<le> real_of_int (2 ^ 53 - 1)" by (simp only: of_int_le_iff)
  hence "\<bar>real_of_int m\<bar> \<le> 2 ^ 53 - 1" by simp
  thus "\<bar>x\<bar> * 2 ^ k < 2 ^ 53" unfolding a using assms(1) by linarith
qed (rule assms)+

lemma scaled_enclosure:
  fixes s :: real
  assumes "\<bar>s - P\<bar> \<le> E" and "\<bar>P * c - m\<bar> + E * c < 1 / 2" and "0 < c"
  shows "\<bar>s * c - m\<bar> < 1 / 2"
proof -
  have "\<bar>s * c - P * c\<bar> = \<bar>s - P\<bar> * c"
    using assms(3) by (simp add: left_diff_distrib [symmetric] abs_mult del: left_diff_distrib)
  also have "\<dots> \<le> E * c" using assms(1,3) by (simp add: mult_right_mono)
  finally show ?thesis using assms(2) by linarith
qed

text \<open>The literals of the distance function are doubles.\<close>

lemma fl_zero: "fl 0 = Fin 0"
  by (simp add: fl_def)

lemma fl_one: "fl 1 = Fin 1"
  using fl_normal [of 1 52 "2 ^ 52"] by simp

lemma fl_two: "fl 2 = Fin 2"
  using fl_normal [of 2 51 "2 ^ 52"] by simp

lemma fl_180: "fl 180 = Fin 180"
  using fl_enclosed [of 180 45 6333186975989760] by simp

lemma fl_radius: "fl 6371000 = Fin 6371000"
  using fl_enclosed [of 6371000 30 6840809160704000] by simp

lemma fl_20: "fl 20 = Fin 20"
  using fl_enclosed [of 20 48 5629499534213120] by simp

subsection \<open>Bounds on a rounding\<close>

text \<open>
  Rounding is odd, keeps the sign, does not leave an interval \<open>[- 2 ^ k, 2 ^ k]\<close>, and moves a
  number of that interval by \<open>2 ^ k / 2 ^ 53\<close> at most.
\<close>

lemma fl_uminus: "fl (- x) = f64_neg (fl x)"
proof (cases "x = 0")
  case True
  thus ?thesis by (simp add: fl_def)
next
  case False
  have b: "binade (- x) = binade x" by (simp add: binade_def)
  show ?thesis
    using False unfolding fl_def Let_def b
    by (simp add: roundEven_uminus)
qed

lemma fl_bounds:
  fixes k :: nat
  assumes "\<bar>x\<bar> \<le> 2 ^ k" and "k \<le> 1023"
  shows "\<exists>r. fl x = Fin r \<and> \<bar>r\<bar> \<le> 2 ^ k \<and> \<bar>r - x\<bar> \<le> 2 ^ k / 2 ^ 53 \<and>
             (0 \<le> x \<longrightarrow> 0 \<le> r) \<and> (x \<le> 0 \<longrightarrow> r \<le> 0)"
proof (cases "x = 0")
  case True
  thus ?thesis by (simp add: fl_def)
next
  case False
  define e where "e = binade x"
  define u :: real where "u = 2 powr (of_int e - 52)"
  define n where "n = roundEven (x / u)"
  define y where "y = of_int n * u"
  have upos: "0 < u" by (simp add: u_def)
  have pos: "0 < \<bar>x\<bar>" using False by simp
  have "log 2 \<bar>x\<bar> \<le> log 2 (2 ^ k)"
    using assms(1) pos by (simp del: log_pow_cancel)
  hence "log 2 \<bar>x\<bar> \<le> real k" by simp
  hence "\<lfloor>log 2 \<bar>x\<bar>\<rfloor> \<le> int k" by (simp add: floor_le_iff)
  hence ek: "e \<le> int k" by (simp add: e_def binade_def)
  define j where "j = nat (int k - e + 52)"
  have j: "int j = int k - e + 52" using ek by (simp add: j_def)
  have N: "2 ^ k / u = of_int (2 ^ j)"
  proof -
    have "2 ^ k / u = 2 powr (real k) / 2 powr (of_int e - 52)"
      by (simp add: u_def powr_realpow)
    also have "\<dots> = 2 powr (real k - (of_int e - 52))" by (simp add: powr_diff)
    also have "real k - (of_int e - 52) = real j"
      using j by (metis (mono_tags, opaque_lifting) add.commute add_diff_eq diff_diff_eq2 of_int_add of_int_diff of_int_numeral of_int_of_nat_eq)
    also have "2 powr (real j) = of_int (2 ^ j)" by (simp add: powr_realpow)
    finally show ?thesis .
  qed
  have "x / u \<le> 2 ^ k / u" using assms(1) upos by (simp add: divide_right_mono)
  hence le: "n \<le> 2 ^ j" unfolding n_def N by (rule roundEven_le)
  have "- (2 ^ k / u) \<le> x / u" using assms(1) upos
    by (metis abs_le_iff divide_right_mono less_eq_real_def minus_divide_left minus_le_iff)
  hence "of_int (- (2 ^ j)) \<le> x / u" unfolding N by simp
  hence ge: "- (2 ^ j) \<le> n" unfolding n_def by (rule roundEven_ge)
  have "\<bar>real_of_int n\<bar> \<le> of_int (2 ^ j)" using le ge
    by (metis abs_le_iff minus_le_iff of_int_le_iff of_int_minus)
  hence "\<bar>real_of_int n\<bar> * u \<le> of_int (2 ^ j) * u" using upos by (simp add: mult_right_mono)
  hence ybound: "\<bar>y\<bar> \<le> 2 ^ k"
    unfolding y_def N [symmetric] using upos by (simp add: abs_mult)
  have "\<bar>of_int n - x / u\<bar> \<le> 1 / 2" unfolding n_def by (rule roundEven_error)
  hence "\<bar>of_int n - x / u\<bar> * u \<le> 1 / 2 * u" using upos by (simp add: mult_right_mono)
  moreover have "\<bar>of_int n - x / u\<bar> * u = \<bar>y - x\<bar>"
    using upos by (simp add: y_def abs_mult [symmetric] left_diff_distrib del: abs_mult)
      (metis abs_mult abs_of_pos left_diff_distrib nonzero_divide_eq_eq less_irrefl)
  ultimately have err: "\<bar>y - x\<bar> \<le> u / 2" by simp
  have "u \<le> 2 powr (real k - 52)" using ek by (simp add: u_def)
  also have "\<dots> = 2 ^ k / 2 ^ 52" by (simp add: powr_diff powr_realpow)
  finally have "u / 2 \<le> 2 ^ k / 2 ^ 53" by simp
  with err have err': "\<bar>y - x\<bar> \<le> 2 ^ k / 2 ^ 53" by simp
  have "(2::real) ^ k < 2 ^ 1024" by (rule power_strict_increasing) (use assms(2) in simp_all)
  with ybound have fin: "\<not> 2 ^ 1024 \<le> \<bar>y\<bar>" by simp
  have sg1: "0 \<le> x \<Longrightarrow> 0 \<le> y"
  proof -
    assume "0 \<le> x"
    hence "of_int 0 \<le> x / u" using upos by simp
    hence "0 \<le> n" unfolding n_def by (rule roundEven_ge)
    thus "0 \<le> y" using upos by (simp add: y_def)
  qed
  have sg2: "x \<le> 0 \<Longrightarrow> y \<le> 0"
  proof -
    assume "x \<le> 0"
    hence "x / u \<le> of_int 0" using upos by (simp add: divide_le_0_iff)
    hence "n \<le> 0" unfolding n_def by (rule roundEven_le)
    thus "y \<le> 0" using upos by (simp add: y_def mult_le_0_iff)
  qed
  have "fl x = Fin y"
    using False fin unfolding fl_def Let_def y_def n_def u_def e_def by simp
  thus ?thesis using ybound err' sg1 sg2 by blast
qed

lemma fl_cases:
  fixes k :: nat
  assumes "\<bar>x\<bar> \<le> 2 ^ k" and "k \<le> 1023"
  obtains r where "fl x = Fin r" and "\<bar>r\<bar> \<le> 2 ^ k" and "\<bar>r - x\<bar> \<le> 2 ^ k / 2 ^ 53"
    and "0 \<le> x \<longrightarrow> 0 \<le> r"
  using fl_bounds [OF assms] by blast

section \<open>The distance in doubles\<close>

subsection \<open>The two directions compute the same number\<close>

lemma f64_neg_neg [simp]: "f64_neg (f64_neg x) = x"
  by (cases x) simp_all

lemma infinityOfSign_uminus: "infinityOfSign (- s) = f64_neg (infinityOfSign s)"
  by (simp add: infinityOfSign_def)

lemma f64_add_commute: "f64_add x y = f64_add y x"
  by (cases x; cases y) (simp_all add: add.commute)

lemma f64_mul_commute: "f64_mul x y = f64_mul y x"
  by (cases x; cases y) (simp_all add: mult.commute)

lemma f64_add_neg: "f64_add (f64_neg x) (f64_neg y) = f64_neg (f64_add x y)"
proof (cases x; cases y)
  fix a b assume "x = Fin a" "y = Fin b"
  moreover have "fl (- a - b) = f64_neg (fl (a + b))"
    using fl_uminus [of "a + b"] by simp
  ultimately show ?thesis by simp
qed simp_all

lemma f64_sub_swap: "f64_sub x y = f64_neg (f64_sub y x)"
  unfolding f64_sub_def
  using f64_add_neg [of y "f64_neg x"] by (simp add: f64_add_commute)

lemma f64_mul_neg_left: "f64_mul (f64_neg x) y = f64_neg (f64_mul x y)"
proof (cases x; cases y)
  fix a b assume "x = Fin a" "y = Fin b"
  thus ?thesis using fl_uminus [of "a * b"] by simp
qed (simp_all add: infinityOfSign_uminus infinityOfSign_def)

lemma f64_mul_neg_right: "f64_mul x (f64_neg y) = f64_neg (f64_mul x y)"
  using f64_mul_neg_left [of y x] by (simp add: f64_mul_commute)

lemma f64_div_neg_left: "f64_div (f64_neg x) y = f64_neg (f64_div x y)"
proof (cases x; cases y)
  fix a b assume "x = Fin a" "y = Fin b"
  thus ?thesis using fl_uminus [of "a / b"] by (simp add: infinityOfSign_uminus)
qed simp_all

lemma Math_sin_neg: "Math_sin (f64_neg x) = f64_neg (Math_sin x)"
  by (cases x) (simp_all add: fl_uminus)

lemma Math_cos_neg: "Math_cos (f64_neg x) = Math_cos x"
  by (cases x) simp_all

lemma hav_a_f64_swap:
  "hav_a_f64 phi2 phi1 (f64_neg dphi) (f64_neg dlam) = hav_a_f64 phi1 phi2 dphi dlam"
  unfolding hav_a_f64_def
  by (simp add: f64_div_neg_left Math_sin_neg f64_mul_neg_left f64_mul_neg_right
        f64_mul_commute [of "Math_cos phi2"])

lemma calculateBaseDistance_f64_sym:
  "calculateBaseDistance_f64 a b = calculateBaseDistance_f64 b a"
proof -
  have 1: "f64_sub (fl (latitude a)) (fl (latitude b)) = f64_neg (f64_sub (fl (latitude b)) (fl (latitude a)))"
    by (rule f64_sub_swap)
  have 2: "f64_sub (fl (longitude a)) (fl (longitude b)) = f64_neg (f64_sub (fl (longitude b)) (fl (longitude a)))"
    by (rule f64_sub_swap)
  show ?thesis
    unfolding calculateBaseDistance_f64_def Let_def 1 2 f64_mul_neg_left f64_div_neg_left
      hav_a_f64_swap ..
qed

lemma calculateDistance_eq: "calculateDistance a b = calculateBaseDistance_f64 a b"
  by (simp add: calculateDistance_def calculateBaseDistance_f64_def)

subsection \<open>Points on one meridian\<close>

text \<open>
  Between two points of equal longitude, with coordinates of magnitude 1024 at most, the
  distance is a finite number, and it is 0 from a point to itself.
\<close>

lemma angle_finite:
  assumes "\<bar>l\<bar> \<le> 2 ^ 11"
  obtains t where "f64_div (f64_mul (Fin l) Math_PI) (fl 180) = Fin t" and "\<bar>t\<bar> \<le> 2 ^ 13"
proof -
  define q :: real where "q = 884279719003555 / 2 ^ 48"
  have q: "Math_PI = Fin q" "\<bar>q\<bar> \<le> 4" by (simp_all add: Math_PI_def q_def)
  have "\<bar>l * q\<bar> \<le> 2 ^ 11 * 4"
    unfolding abs_mult by (intro mult_mono assms q) simp_all
  hence "\<bar>l * q\<bar> \<le> 2 ^ 13" by simp
  then obtain p where p: "fl (l * q) = Fin p" "\<bar>p\<bar> \<le> 2 ^ 13"
    by (rule fl_cases [where k = 13]) simp_all
  have "\<bar>p / 180\<bar> \<le> 2 ^ 13" using p(2) by simp
  then obtain t where t: "fl (p / 180) = Fin t" "\<bar>t\<bar> \<le> 2 ^ 13"
    by (rule fl_cases [where k = 13]) simp_all
  have "f64_div (f64_mul (Fin l) Math_PI) (fl 180) = Fin t"
    unfolding q(1) fl_180 by (simp add: p t)
  thus ?thesis using t(2) by (rule that)
qed

lemma angle_zero: "f64_div (f64_mul (Fin 0) Math_PI) (fl 180) = Fin 0"
  by (simp add: Math_PI_def fl_180 fl_zero)

lemma cos_product_finite:
  obtains c where "f64_mul (Math_cos (Fin s)) (Math_cos (Fin t)) = Fin c"
proof -
  have "\<bar>cos s\<bar> \<le> 2 ^ 0" by simp
  then obtain a where a: "fl (cos s) = Fin a" "\<bar>a\<bar> \<le> 2 ^ 0"
    by (rule fl_cases [where k = 0]) simp_all
  have "\<bar>cos t\<bar> \<le> 2 ^ 0" by simp
  then obtain b where b: "fl (cos t) = Fin b" "\<bar>b\<bar> \<le> 2 ^ 0"
    by (rule fl_cases [where k = 0]) simp_all
  have "\<bar>a * b\<bar> \<le> 1 * 1" unfolding abs_mult using a(2) b(2) by (intro mult_mono) simp_all
  hence "\<bar>a * b\<bar> \<le> 2 ^ 0" by simp
  then obtain c where "fl (a * b) = Fin c"
    by (rule fl_cases [where k = 0]) simp_all
  hence "f64_mul (Math_cos (Fin s)) (Math_cos (Fin t)) = Fin c" by (simp add: a b)
  thus ?thesis by (rule that)
qed

lemma hav_a_f64_meridian:
  assumes "\<bar>d\<bar> \<le> 2 ^ 13"
  obtains a where "hav_a_f64 (Fin s) (Fin t) (Fin d) (Fin 0) = Fin a" and "0 \<le> a" and "a \<le> 1"
proof -
  obtain c where c: "f64_mul (Math_cos (Fin s)) (Math_cos (Fin t)) = Fin c"
    by (rule cos_product_finite)
  have z: "Math_sin (f64_div (Fin 0) (fl 2)) = Fin 0" by (simp add: fl_two fl_zero)
  have "\<bar>d / 2\<bar> \<le> 2 ^ 13" using assms by simp
  then obtain h where h: "fl (d / 2) = Fin h"
    by (rule fl_cases [where k = 13]) simp_all
  have "\<bar>sin h\<bar> \<le> 2 ^ 0" by simp
  then obtain u where u: "fl (sin h) = Fin u" "\<bar>u\<bar> \<le> 2 ^ 0"
    by (rule fl_cases [where k = 0]) simp_all
  have su: "Math_sin (f64_div (Fin d) (fl 2)) = Fin u" by (simp add: fl_two h u)
  have "\<bar>u * u\<bar> \<le> 1 * 1" unfolding abs_mult using u(2) by (intro mult_mono) simp_all
  hence uu: "\<bar>u * u\<bar> \<le> 2 ^ 0" by simp
  then obtain w where w: "fl (u * u) = Fin w" "\<bar>w\<bar> \<le> 2 ^ 0" "0 \<le> u * u \<longrightarrow> 0 \<le> w"
    by (rule fl_cases [where k = 0]) simp_all
  have w0: "0 \<le> w" using w(3) by simp
  have "\<bar>w + 0\<bar> \<le> 2 ^ 0" using w(2) by simp
  then obtain a where a: "fl (w + 0) = Fin a" "\<bar>a\<bar> \<le> 2 ^ 0" "0 \<le> w + 0 \<longrightarrow> 0 \<le> a"
    by (rule fl_cases [where k = 0]) simp_all
  have "hav_a_f64 (Fin s) (Fin t) (Fin d) (Fin 0) = Fin a"
    unfolding hav_a_f64_def z su c using a(1) by (simp add: w fl_zero)
  moreover have "0 \<le> a" using a(3) w0 by simp
  moreover have "a \<le> 1" using a(2) by simp
  ultimately show ?thesis by (rule that)
qed

lemma atan2_quadrant:
  assumes "0 \<le> y" and "0 \<le> x"
  shows "0 \<le> atan2 y x" and "atan2 y x \<le> 2"
proof -
  have p: "pi / 2 \<le> 2" using pi_less_4 by simp
  have a: "0 \<le> arctan (y / x)" using assms by (simp add: zero_le_arctan_iff)
  have b: "arctan (y / x) \<le> pi / 2" using arctan_ubound [of "y / x"] by simp
  show "0 \<le> atan2 y x" using assms a unfolding atan2_def by auto
  show "atan2 y x \<le> 2" using assms b p unfolding atan2_def by auto
qed

lemma distance_from_a:
  assumes "0 \<le> a" and "a \<le> 1"
  obtains L where
    "f64_mul (fl 6371000) (f64_mul (fl 2)
       (Math_atan2 (Math_sqrt (Fin a)) (Math_sqrt (f64_sub (fl 1) (Fin a))))) = Fin L"
    and "0 \<le> L" and "L \<le> 2 ^ 25"
proof -
  have "\<bar>sqrt a\<bar> \<le> 2 ^ 0" using assms by simp
  then obtain y where y: "fl (sqrt a) = Fin y" "\<bar>y\<bar> \<le> 2 ^ 0" "0 \<le> sqrt a \<longrightarrow> 0 \<le> y"
    by (rule fl_cases [where k = 0]) simp_all
  have "\<bar>1 - a\<bar> \<le> 2 ^ 0" using assms by simp
  then obtain b where b: "fl (1 - a) = Fin b" "\<bar>b\<bar> \<le> 2 ^ 0" "0 \<le> 1 - a \<longrightarrow> 0 \<le> b"
    by (rule fl_cases [where k = 0]) simp_all
  have b0: "0 \<le> b" using b(3) assms by simp
  have "\<bar>sqrt b\<bar> \<le> 2 ^ 0" using b(2) b0 by simp
  then obtain x where x: "fl (sqrt b) = Fin x" "\<bar>x\<bar> \<le> 2 ^ 0" "0 \<le> sqrt b \<longrightarrow> 0 \<le> x"
    by (rule fl_cases [where k = 0]) simp_all
  have ynn: "0 \<le> y" using y(3) assms by simp
  have xnn: "0 \<le> x" using x(3) b0 by simp
  have q: "0 \<le> atan2 y x" "atan2 y x \<le> 2" using ynn xnn by (rule atan2_quadrant)+
  hence "\<bar>atan2 y x\<bar> \<le> 2 ^ 1" by simp
  then obtain t where t: "fl (atan2 y x) = Fin t" "\<bar>t\<bar> \<le> 2 ^ 1" "0 \<le> atan2 y x \<longrightarrow> 0 \<le> t"
    by (rule fl_cases [where k = 1]) simp_all
  have t0: "0 \<le> t" using t(3) q by simp
  have "\<bar>2 * t\<bar> \<le> 2 ^ 2" using t(2) by simp
  then obtain c where c: "fl (2 * t) = Fin c" "\<bar>c\<bar> \<le> 2 ^ 2" "0 \<le> 2 * t \<longrightarrow> 0 \<le> c"
    by (rule fl_cases [where k = 2]) simp_all
  have c0: "0 \<le> c" using c(3) t0 by simp
  have "\<bar>6371000 * c\<bar> \<le> 6371000 * 2 ^ 2" unfolding abs_mult using c(2) by simp
  hence "\<bar>6371000 * c\<bar> \<le> 2 ^ 25" by simp
  then obtain L where L: "fl (6371000 * c) = Fin L" "\<bar>L\<bar> \<le> 2 ^ 25" "0 \<le> 6371000 * c \<longrightarrow> 0 \<le> L"
    by (rule fl_cases [where k = 25]) simp_all
  have "f64_mul (fl 6371000) (f64_mul (fl 2)
       (Math_atan2 (Math_sqrt (Fin a)) (Math_sqrt (f64_sub (fl 1) (Fin a))))) = Fin L"
    using assms b0 by (simp add: f64_sub_def fl_one fl_two fl_radius y b x t c L not_less)
  moreover have "0 \<le> L" using L(3) c0 by simp
  moreover have "L \<le> 2 ^ 25" using L(2) by simp
  ultimately show ?thesis by (rule that)
qed

lemma distance_meridian_finite:
  assumes "longitude a = longitude b"
    and "\<bar>latitude a\<bar> \<le> 2 ^ 10" and "\<bar>latitude b\<bar> \<le> 2 ^ 10" and "\<bar>longitude a\<bar> \<le> 2 ^ 10"
  obtains L where "calculateBaseDistance_f64 a b = Fin L" and "0 \<le> L" and "L \<le> 2 ^ 25"
proof -
  obtain la where la: "fl (latitude a) = Fin la" "\<bar>la\<bar> \<le> 2 ^ 10"
    using assms(2) by (rule fl_cases [where k = 10]) simp_all
  obtain lb where lb: "fl (latitude b) = Fin lb" "\<bar>lb\<bar> \<le> 2 ^ 10"
    using assms(3) by (rule fl_cases [where k = 10]) simp_all
  obtain lo where lo: "fl (longitude a) = Fin lo" "\<bar>lo\<bar> \<le> 2 ^ 10"
    using assms(4) by (rule fl_cases [where k = 10]) simp_all
  have "\<bar>la\<bar> \<le> 2 ^ 11" "\<bar>lb\<bar> \<le> 2 ^ 11" using la(2) lb(2) by simp_all
  then obtain s t where s: "f64_div (f64_mul (Fin la) Math_PI) (fl 180) = Fin s"
    and t: "f64_div (f64_mul (Fin lb) Math_PI) (fl 180) = Fin t"
    by (metis angle_finite)
  have "\<bar>lb - la\<bar> \<le> 2 ^ 11" using la(2) lb(2) by simp
  then obtain dl where dl: "fl (lb - la) = Fin dl" "\<bar>dl\<bar> \<le> 2 ^ 11"
    by (rule fl_cases [where k = 11]) simp_all
  obtain d where d: "f64_div (f64_mul (Fin dl) Math_PI) (fl 180) = Fin d" "\<bar>d\<bar> \<le> 2 ^ 13"
    using dl(2) by (rule angle_finite)
  have sub1: "f64_sub (Fin lb) (Fin la) = Fin dl" by (simp add: f64_sub_def dl)
  have sub2: "f64_sub (Fin lo) (Fin lo) = Fin 0" by (simp add: f64_sub_def fl_zero)
  obtain h where h: "hav_a_f64 (Fin s) (Fin t) (Fin d) (Fin 0) = Fin h" "0 \<le> h" "h \<le> 1"
    using d(2) by (rule hav_a_f64_meridian)
  obtain L where L: "f64_mul (fl 6371000) (f64_mul (fl 2)
       (Math_atan2 (Math_sqrt (Fin h)) (Math_sqrt (f64_sub (fl 1) (Fin h))))) = Fin L"
    "0 \<le> L" "L \<le> 2 ^ 25"
    using h(2,3) by (rule distance_from_a)
  have "calculateBaseDistance_f64 a b = Fin L"
    unfolding calculateBaseDistance_f64_def Let_def assms(1) [symmetric] la lb lo sub1 sub2 s t d
      angle_zero h L ..
  thus ?thesis using L(2,3) by (rule that)
qed

lemma distance_same_point:
  assumes "\<bar>latitude a\<bar> \<le> 2 ^ 10" and "\<bar>longitude a\<bar> \<le> 2 ^ 10"
  shows "calculateBaseDistance_f64 a a = Fin 0"
proof -
  obtain la where la: "fl (latitude a) = Fin la" "\<bar>la\<bar> \<le> 2 ^ 10"
    using assms(1) by (rule fl_cases [where k = 10]) simp_all
  obtain lo where lo: "fl (longitude a) = Fin lo"
    using assms(2) by (rule fl_cases [where k = 10]) simp_all
  have "\<bar>la\<bar> \<le> 2 ^ 11" using la(2) by simp
  then obtain s where s: "f64_div (f64_mul (Fin la) Math_PI) (fl 180) = Fin s"
    by (metis angle_finite)
  obtain c where c: "f64_mul (Math_cos (Fin s)) (Math_cos (Fin s)) = Fin c"
    by (rule cos_product_finite)
  have sub: "f64_sub (Fin la) (Fin la) = Fin 0" "f64_sub (Fin lo) (Fin lo) = Fin 0"
    by (simp_all add: f64_sub_def fl_zero)
  have z: "Math_sin (f64_div (Fin 0) (fl 2)) = Fin 0" by (simp add: fl_two fl_zero)
  have h: "hav_a_f64 (Fin s) (Fin s) (Fin 0) (Fin 0) = Fin 0"
    unfolding hav_a_f64_def z c by (simp add: fl_zero)
  have tail: "f64_mul (fl 6371000) (f64_mul (fl 2)
       (Math_atan2 (Math_sqrt (Fin 0)) (Math_sqrt (f64_sub (fl 1) (Fin 0))))) = Fin 0"
    by (simp add: f64_sub_def fl_one fl_two fl_radius fl_zero atan2_def)
  show ?thesis
    unfolding calculateBaseDistance_f64_def Let_def la lo sub s angle_zero h tail ..
qed

subsection \<open>Sine and cosine at the angles of the example\<close>

lemma sin_coeff_values:
  "sin_coeff 0 = 0" "sin_coeff 1 = 1" "sin_coeff 2 = 0" "sin_coeff 3 = - 1 / 6"
  "sin_coeff 4 = 0" "sin_coeff 5 = 1 / 120" "sin_coeff 6 = 0" "sin_coeff (Suc 0) = 1"
  by (simp_all add: sin_coeff_def fact_numeral)

lemma cos_coeff_values:
  "cos_coeff 0 = 1" "cos_coeff 1 = 0" "cos_coeff 2 = - 1 / 2" "cos_coeff 3 = 0"
  "cos_coeff 4 = 1 / 24" "cos_coeff 5 = 0" "cos_coeff (Suc 0) = 0"
  by (simp_all add: cos_coeff_def fact_numeral)

lemma cos_coeff_more:
  "cos_coeff 6 = - 1 / 720" "cos_coeff 7 = 0" "cos_coeff 8 = 1 / 40320" "cos_coeff 9 = 0" "cos_coeff 10 = - 1 / 3628800" "cos_coeff 11 = 0" "cos_coeff 12 = 1 / 479001600" "cos_coeff 13 = 0" "cos_coeff 14 = - 1 / 87178291200" "cos_coeff 15 = 0"
  by (simp_all add: cos_coeff_def fact_numeral)

lemma sin_taylor7:
  fixes x :: real
  shows "\<bar>sin x - (x - x ^ 3 / 6 + x ^ 5 / 120)\<bar> \<le> \<bar>x\<bar> ^ 7 / 5040"
proof -
  have "(\<Sum>m<7. sin_coeff m * x ^ m) =
      sin_coeff 0 * x ^ 0 + sin_coeff 1 * x ^ 1 + sin_coeff 2 * x ^ 2 + sin_coeff 3 * x ^ 3
      + sin_coeff 4 * x ^ 4 + sin_coeff 5 * x ^ 5 + sin_coeff 6 * x ^ 6"
    by (simp add: eval_nat_numeral lessThan_Suc)
  hence s: "(\<Sum>m<7. sin_coeff m * x ^ m) = x - x ^ 3 / 6 + x ^ 5 / 120"
    by (simp add: sin_coeff_values)
  have f: "fact 7 = (5040::real)" by (simp add: eval_nat_numeral)
  show ?thesis using Maclaurin_sin_bound [of x 7] unfolding s f by (simp add: field_simps)
qed

lemma cos_taylor6:
  fixes x :: real
  shows "\<bar>cos x - (1 - x ^ 2 / 2 + x ^ 4 / 24)\<bar> \<le> \<bar>x\<bar> ^ 6 / 720"
proof -
  obtain t where t: "cos x = (\<Sum>m<6. cos_coeff m * x ^ m) + cos (t + 1 / 2 * real 6 * pi) / fact 6 * x ^ 6"
    using Maclaurin_cos_expansion [of x 6] by blast
  have "(\<Sum>m<6. cos_coeff m * x ^ m) =
      cos_coeff 0 * x ^ 0 + cos_coeff 1 * x ^ 1 + cos_coeff 2 * x ^ 2 + cos_coeff 3 * x ^ 3
      + cos_coeff 4 * x ^ 4 + cos_coeff 5 * x ^ 5"
    by (simp add: eval_nat_numeral lessThan_Suc)
  hence s: "(\<Sum>m<6. cos_coeff m * x ^ m) = 1 - x ^ 2 / 2 + x ^ 4 / 24"
    by (simp add: cos_coeff_values)
  have f: "fact 6 = (720::real)" by (simp add: eval_nat_numeral)
  have "\<bar>cos (t + 1 / 2 * real 6 * pi) / fact 6 * x ^ 6\<bar> \<le> 1 / 720 * \<bar>x\<bar> ^ 6"
    unfolding f abs_mult abs_divide power_abs [symmetric]
    by (intro mult_right_mono divide_right_mono) simp_all
  thus ?thesis using t s by simp
qed

lemma cos_taylor16:
  fixes x :: real
  shows "\<bar>cos x - cosPoly x\<bar> \<le> \<bar>x\<bar> ^ 16 / 20922789888000"
proof -
  obtain t where t: "cos x = (\<Sum>m<16. cos_coeff m * x ^ m) + cos (t + 1 / 2 * real 16 * pi) / fact 16 * x ^ 16"
    using Maclaurin_cos_expansion [of x 16] by blast
  have "(\<Sum>m<16. cos_coeff m * x ^ m) = cos_coeff 0 * x ^ 0 + cos_coeff 1 * x ^ 1 + cos_coeff 2 * x ^ 2 + cos_coeff 3 * x ^ 3 + cos_coeff 4 * x ^ 4 + cos_coeff 5 * x ^ 5 + cos_coeff 6 * x ^ 6 + cos_coeff 7 * x ^ 7 + cos_coeff 8 * x ^ 8 + cos_coeff 9 * x ^ 9 + cos_coeff 10 * x ^ 10 + cos_coeff 11 * x ^ 11 + cos_coeff 12 * x ^ 12 + cos_coeff 13 * x ^ 13 + cos_coeff 14 * x ^ 14 + cos_coeff 15 * x ^ 15"
    by (simp add: eval_nat_numeral lessThan_Suc)
  hence "(\<Sum>m<16. cos_coeff m * x ^ m) = 1 - x ^ 2 / 2 + x ^ 4 / 24 - x ^ 6 / 720 + x ^ 8 / 40320 - x ^ 10 / 3628800 + x ^ 12 / 479001600 - x ^ 14 / 87178291200"
    by (simp add: cos_coeff_more cos_coeff_values)
  also have "\<dots> = cosPoly x"
    unfolding cosPoly_def by (simp add: field_simps power2_eq_square power_numeral_reduce)
  finally have s: "(\<Sum>m<16. cos_coeff m * x ^ m) = cosPoly x" .
  have f: "fact 16 = (20922789888000::real)" by (simp add: fact_numeral)
  have "\<bar>cos (t + 1 / 2 * real 16 * pi) / fact 16 * x ^ 16\<bar> \<le> 1 / 20922789888000 * \<bar>x\<bar> ^ 16"
    unfolding f abs_mult abs_divide power_abs [symmetric]
    by (intro mult_right_mono divide_right_mono) simp_all
  thus ?thesis using t s by simp
qed

lemma cos_lipschitz:
  fixes a b :: real
  shows "\<bar>cos a - cos b\<bar> \<le> \<bar>a - b\<bar>"
proof -
  have "cos a - cos b = 2 * sin ((a + b) / 2) * sin ((b - a) / 2)" by (rule cos_diff_cos)
  hence "\<bar>cos a - cos b\<bar> = 2 * \<bar>sin ((a + b) / 2)\<bar> * \<bar>sin ((b - a) / 2)\<bar>"
    by (simp add: abs_mult)
  also have "\<dots> \<le> 2 * 1 * \<bar>(b - a) / 2\<bar>"
    by (intro mult_mono abs_sin_x_le_abs_x) simp_all
  finally show ?thesis by simp
qed

lemma sin_small_angle: "fl (sin smallAngle) = Fin (1609781578736119 / 2 ^ 60)"
proof -
  have b: "\<bar>sin smallAngle - (smallAngle - smallAngle ^ 3 / 6 + smallAngle ^ 5 / 120)\<bar> \<le> \<bar>smallAngle\<bar> ^ 7 / 5040"
    by (rule sin_taylor7)
  have 1: "\<bar>(smallAngle - smallAngle ^ 3 / 6 + smallAngle ^ 5 / 120) * 2 ^ 62 - 6439126314944476\<bar> + \<bar>smallAngle\<bar> ^ 7 / 5040 * 2 ^ 62 < 1 / 2"
    unfolding smallAngle_def by (simp add: power_divide)
  have c: "\<bar>sin smallAngle * 2 ^ 62 - 6439126314944476\<bar> < 1 / 2"
    by (rule scaled_enclosure [OF b 1]) simp
  hence d: "\<bar>sin smallAngle * 2 ^ 62 - of_int 6439126314944476\<bar> < 1 / 2" by simp
  have "fl (sin smallAngle) = Fin (of_int 6439126314944476 / 2 ^ 62)"
    by (rule fl_enclosed [OF d]) simp_all
  thus ?thesis by simp
qed

lemma cos_small_angle: "fl (cos smallAngle) = Fin (4503595237371535 / 2 ^ 52)"
proof -
  have b: "\<bar>cos smallAngle - (1 - smallAngle ^ 2 / 2 + smallAngle ^ 4 / 24)\<bar> \<le> \<bar>smallAngle\<bar> ^ 6 / 720"
    by (rule cos_taylor6)
  have 1: "\<bar>(1 - smallAngle ^ 2 / 2 + smallAngle ^ 4 / 24) * 2 ^ 53 - 9007190474743070\<bar> + \<bar>smallAngle\<bar> ^ 6 / 720 * 2 ^ 53 < 1 / 2"
    unfolding smallAngle_def by (simp add: power_divide)
  have c: "\<bar>cos smallAngle * 2 ^ 53 - 9007190474743070\<bar> < 1 / 2"
    by (rule scaled_enclosure [OF b 1]) simp
  hence d: "\<bar>cos smallAngle * 2 ^ 53 - of_int 9007190474743070\<bar> < 1 / 2" by simp
  have "fl (cos smallAngle) = Fin (of_int 9007190474743070 / 2 ^ 53)"
    by (rule fl_enclosed [OF d]) simp_all
  thus ?thesis by simp
qed

lemma cos_right_angle_small: "\<bar>cos rightAngle\<bar> \<le> 1 / 10 ^ 9"
proof -
  define r :: real where "r = 1570796327 / 10 ^ 9"
  have b: "\<bar>cos r - cosPoly r\<bar> \<le> \<bar>r\<bar> ^ 16 / 20922789888000" by (rule cos_taylor16)
  have l: "\<bar>cos rightAngle - cos r\<bar> \<le> \<bar>rightAngle - r\<bar>" by (rule cos_lipschitz)
  have 1: "\<bar>cosPoly r\<bar> + \<bar>r\<bar> ^ 16 / 20922789888000 + \<bar>rightAngle - r\<bar> \<le> 1 / 10 ^ 9"
    unfolding rightAngle_def r_def cosPoly_def by (simp add: power_divide)
  show ?thesis using b l 1 by linarith
qed

lemma sin_right_angle_lower: "1 - 1 / 2 ^ 55 < sin rightAngle"
proof -
  have "0 \<le> rightAngle" "rightAngle \<le> pi" unfolding rightAngle_def using pi_ge_three by simp_all
  hence s0: "0 \<le> sin rightAngle" by (rule sin_ge_zero)
  have s1: "sin rightAngle \<le> 1" by simp
  have "(cos rightAngle)\<^sup>2 \<le> (1 / 10 ^ 9)\<^sup>2"
    using cos_right_angle_small by (metis abs_ge_zero power2_abs power_mono)
  hence "(cos rightAngle)\<^sup>2 \<le> 1 / 10 ^ 18" by (simp add: power_divide)
  moreover have "(sin rightAngle)\<^sup>2 = 1 - (cos rightAngle)\<^sup>2" by (simp add: sin_squared_eq)
  ultimately have "1 - 1 / 10 ^ 18 \<le> (sin rightAngle)\<^sup>2" by linarith
  moreover have "(sin rightAngle)\<^sup>2 \<le> sin rightAngle"
    using s0 s1 by (simp add: power2_eq_square mult_left_le)
  ultimately show ?thesis by simp
qed

lemma fl_sin_right_angle: "fl (sin rightAngle) = Fin 1"
proof (cases "sin rightAngle = 1")
  case True
  thus ?thesis by (simp add: fl_one)
next
  case False
  hence lt: "sin rightAngle < 1" using sin_le_one [of rightAngle] by linarith
  have lo: "1 - 1 / 2 ^ 55 < sin rightAngle" by (rule sin_right_angle_lower)
  have a: "\<bar>sin rightAngle\<bar> = sin rightAngle" using lo by simp
  have "fl (sin rightAngle) = Fin (of_int (2 ^ 53) / 2 ^ 53)"
    by (rule fl_normal) (use lt lo a in simp_all)
  thus ?thesis by simp
qed

subsection \<open>The distance between a point and its antipode\<close>

text \<open>
  From \<open>(0.08, 0)\<close> to \<open>(- 0.08, 180)\<close>: the squared sine of half the difference of the latitudes
  and the product of the cosines are each rounded, and their sum, which is 1 in exact
  arithmetic, is rounded to the next double above 1. So \<open>1 - a\<close> is negative, its square root
  is \<open>NaN\<close>, and so is the distance.
\<close>

lemma fl_latitude: "fl (8 / 100) = Fin (5764607523034235 / 2 ^ 56)"
  using fl_enclosed [of "8 / 100" 56 5764607523034235] by simp

lemma angle_north:
  "f64_div (f64_mul (fl (8 / 100)) Math_PI) (fl 180) = Fin smallAngle"
proof -
  have 1: "fl (5764607523034235 / 2 ^ 56 * (884279719003555 / 2 ^ 48)) = Fin (2263756080649101 / 2 ^ 53)"
    using fl_enclosed [of "5764607523034235 / 2 ^ 56 * (884279719003555 / 2 ^ 48)" 54 4527512161298202]
    by simp
  have 2: "fl (2263756080649101 / 2 ^ 53 / 180) = Fin (6439128407179665 / 2 ^ 62)"
    using fl_enclosed [of "2263756080649101 / 2 ^ 53 / 180" 62 6439128407179665] by simp
  show ?thesis
    unfolding fl_latitude fl_180 Math_PI_def f64_mul.simps 1 f64_div.simps smallAngle_def
    using 2 by simp
qed

lemma angle_difference:
  "f64_div (f64_mul (f64_sub (f64_neg (fl (8 / 100))) (fl (8 / 100))) Math_PI) (fl 180)
     = Fin (- (2 * smallAngle))"
proof -
  have 0: "fl (5764607523034235 / 2 ^ 56 + 5764607523034235 / 2 ^ 56) = Fin (5764607523034235 / 2 ^ 55)"
    using fl_enclosed [of "5764607523034235 / 2 ^ 56 + 5764607523034235 / 2 ^ 56" 55 5764607523034235]
    by simp
  have 1: "fl (5764607523034235 / 2 ^ 55 * (884279719003555 / 2 ^ 48)) = Fin (2263756080649101 / 2 ^ 52)"
    using fl_enclosed [of "5764607523034235 / 2 ^ 55 * (884279719003555 / 2 ^ 48)" 53 4527512161298202]
    by simp
  have 2: "fl (2263756080649101 / 2 ^ 52 / 180) = Fin (6439128407179665 / 2 ^ 61)"
    using fl_enclosed [of "2263756080649101 / 2 ^ 52 / 180" 61 6439128407179665] by simp
  have s: "f64_sub (f64_neg (fl (8 / 100))) (fl (8 / 100)) = f64_neg (Fin (5764607523034235 / 2 ^ 55))"
    unfolding f64_sub_def f64_add_neg fl_latitude f64_add.simps 0 ..
  have m: "f64_mul (Fin (5764607523034235 / 2 ^ 55)) Math_PI = Fin (2263756080649101 / 2 ^ 52)"
    unfolding Math_PI_def f64_mul.simps 1 ..
  have d: "f64_div (Fin (2263756080649101 / 2 ^ 52)) (fl 180) = Fin (6439128407179665 / 2 ^ 61)"
    unfolding fl_180 using 2 by simp
  show ?thesis
    unfolding s f64_mul_neg_left m f64_div_neg_left d by (simp add: smallAngle_def)
qed

lemma angle_pi:
  "f64_div (f64_mul (f64_sub (fl 180) (fl 0)) Math_PI) (fl 180) = Fin (2 * rightAngle)"
proof -
  have 1: "fl (180 * (884279719003555 / 2 ^ 48)) = Fin (4974073419394997 / 2 ^ 43)"
    using fl_enclosed [of "180 * (884279719003555 / 2 ^ 48)" 43 4974073419394997] by simp
  have 2: "fl (4974073419394997 / 2 ^ 43 / 180) = Fin (884279719003555 / 2 ^ 48)"
    using fl_enclosed [of "4974073419394997 / 2 ^ 43 / 180" 51 7074237752028440] by simp
  have s: "f64_sub (fl 180) (fl 0) = Fin 180"
    unfolding f64_sub_def fl_zero fl_180 by (simp add: fl_180)
  have m: "f64_mul (Fin 180) Math_PI = Fin (4974073419394997 / 2 ^ 43)"
    unfolding Math_PI_def f64_mul.simps 1 ..
  have d: "f64_div (Fin (4974073419394997 / 2 ^ 43)) (fl 180) = Fin (884279719003555 / 2 ^ 48)"
    unfolding fl_180 using 2 by simp
  show ?thesis unfolding s m d by (simp add: rightAngle_def)
qed

lemma half_angles:
  "f64_div (Fin (- (2 * smallAngle))) (fl 2) = Fin (- smallAngle)"
  "f64_div (Fin (2 * rightAngle)) (fl 2) = Fin rightAngle"
proof -
  have 1: "fl smallAngle = Fin smallAngle"
    unfolding smallAngle_def using fl_enclosed [of "6439128407179665 / 2 ^ 62" 62 6439128407179665] by simp
  have 2: "fl rightAngle = Fin rightAngle"
    unfolding rightAngle_def using fl_enclosed [of "884279719003555 / 2 ^ 49" 52 7074237752028440] by simp
  show "f64_div (Fin (- (2 * smallAngle))) (fl 2) = Fin (- smallAngle)"
    using fl_uminus [of smallAngle] by (simp add: fl_two 1)
  show "f64_div (Fin (2 * rightAngle)) (fl 2) = Fin rightAngle"
    by (simp add: fl_two 2)
qed

lemma hav_a_above_one:
  "hav_a_f64 (Fin smallAngle) (Fin (- smallAngle)) (Fin (- (2 * smallAngle))) (Fin (2 * rightAngle)) = Fin (1 + 1 / 2 ^ 52)"
proof -
  have s: "Math_sin (Fin (- smallAngle)) = Fin (- (1609781578736119 / 2 ^ 60))"
    using fl_uminus [of "sin smallAngle"] by (simp add: sin_small_angle)
  have c: "Math_cos (Fin smallAngle) = Fin (4503595237371535 / 2 ^ 52)"
       "Math_cos (Fin (- smallAngle)) = Fin (4503595237371535 / 2 ^ 52)"
    by (simp_all add: cos_small_angle)
  have t: "Math_sin (Fin rightAngle) = Fin 1" by (simp add: fl_sin_right_angle)
  have ss: "f64_mul (Fin (- (1609781578736119 / 2 ^ 60))) (Fin (- (1609781578736119 / 2 ^ 60)))
      = Fin (4603245307134343 / 2 ^ 71)"
    using fl_enclosed [of "1609781578736119 / 2 ^ 60 * (1609781578736119 / 2 ^ 60)" 71 4603245307134343]
    by simp
  have cc: "f64_mul (Fin (4503595237371535 / 2 ^ 52)) (Fin (4503595237371535 / 2 ^ 52))
      = Fin (9007181694753707 / 2 ^ 53)"
    using fl_enclosed [of "4503595237371535 / 2 ^ 52 * (4503595237371535 / 2 ^ 52)" 53 9007181694753707]
    by simp
  have c1: "f64_mul (Fin (9007181694753707 / 2 ^ 53)) (Fin 1) = Fin (9007181694753707 / 2 ^ 53)"
    using fl_enclosed [of "9007181694753707 / 2 ^ 53" 53 9007181694753707] by simp
  have a: "f64_add (Fin (4603245307134343 / 2 ^ 71)) (Fin (9007181694753707 / 2 ^ 53))
      = Fin (1 + 1 / 2 ^ 52)"
    using fl_enclosed [of "4603245307134343 / 2 ^ 71 + 9007181694753707 / 2 ^ 53" 52 4503599627370497]
    by simp
  show ?thesis
    unfolding hav_a_f64_def half_angles s c t ss cc c1 a ..
qed

text \<open>\<open>NaN\<close> spreads through the arithmetic, and every comparison with it is false.\<close>

lemma f64_mul_NaN [simp]: "f64_mul x NaN = NaN"
  by (cases x) simp_all

lemma Math_atan2_NaN [simp]: "Math_atan2 y NaN = NaN"
  by (cases y) simp_all

lemma f64_add_NaN [simp]: "f64_add x NaN = NaN"
  by (cases x) simp_all

lemma f64_lt_NaN [simp]: "\<not> f64_lt x NaN"
  by (cases x) simp_all

lemma distance_tail:
  "f64_mul (fl 6371000) (f64_mul (fl 2)
     (Math_atan2 (Math_sqrt (Fin (1 + 1 / 2 ^ 52))) (Math_sqrt (f64_sub (fl 1) (Fin (1 + 1 / 2 ^ 52))))))
   = NaN"
proof -
  have "fl (- (1 / 2 ^ 52)) = Fin (- (1 / 2 ^ 52))"
    using fl_normal [of "- (1 / 2 ^ 52)" 104 "- (2 ^ 52)"] by simp
  hence "f64_sub (fl 1) (Fin (1 + 1 / 2 ^ 52)) = Fin (- (1 / 2 ^ 52))"
    by (simp add: f64_sub_def fl_one)
  thus ?thesis by simp
qed

lemma distance_near_antipodes: "calculateBaseDistance_f64 northPoint antipode = NaN"
proof -
  have n: "fl (- (8 / 100)) = f64_neg (fl (8 / 100))" by (rule fl_uminus)
  show ?thesis
    unfolding calculateBaseDistance_f64_def Let_def northPoint_def antipode_def loc_def
      NavigationLocation.simps n
    unfolding angle_difference angle_pi f64_mul_neg_left f64_div_neg_left angle_north f64_neg.simps
      hav_a_above_one distance_tail ..
qed

text \<open>In exact arithmetic that distance is half the circumference.\<close>

lemma exact_distance_antipode:
  "calculateBaseDistance northPoint antipode = 6371000 * pi"
  "calculateBaseDistance antipode northPoint = 6371000 * pi"
proof -
  have h: "hav_a p (- p) (- p - p) pi = 1" for p :: real
    unfolding hav_a_decomp by simp
  have a: "calculateBaseDistance northPoint antipode = 6371000 * (2 * arcsin (sqrt (hav_a (8 / 100 * pi / 180) (- (8 / 100 * pi / 180)) (- (8 / 100 * pi / 180) - 8 / 100 * pi / 180) pi)))"
    unfolding calculateBaseDistance_arcsin by (simp add: northPoint_def antipode_def loc_def)
  show "calculateBaseDistance northPoint antipode = 6371000 * pi"
    unfolding a h by simp
  thus "calculateBaseDistance antipode northPoint = 6371000 * pi"
    by (simp add: calculateBaseDistance_sym [of antipode northPoint])
qed

text \<open>
  Claim C10 does not hold of the code. The two directions do compute the same number
  (lemma \<open>calculateBaseDistance_f64_sym\<close>), and the distance of a point to itself is 0
  (lemma \<open>distance_same_point\<close>); but between \<open>(0.08, 0)\<close> and \<open>(- 0.08, 180)\<close> that number is
  \<open>NaN\<close>, in the service and in the navigation utilities, and \<open>NaN\<close> is not equal to itself:
  the comparison \<open>distance(a, b) == distance(b, a)\<close> is false. The distance between the two
  points is half the circumference of the sphere.
\<close>

theorem C10_distance_is_NaN_near_antipodes:
  "calculateBaseDistance_f64 northPoint antipode = NaN
   \<and> calculateBaseDistance_f64 antipode northPoint = NaN
   \<and> \<not> strictEquals (calculateBaseDistance_f64 northPoint antipode)
                      (calculateBaseDistance_f64 antipode northPoint)
   \<and> calculateDistance northPoint antipode = NaN
   \<and> calculateDistance antipode northPoint = NaN
   \<and> \<not> strictEquals (calculateDistance northPoint antipode)
                      (calculateDistance antipode northPoint)
   \<and> calculateBaseDistance northPoint antipode = 6371000 * pi"
proof -
  have 1: "calculateBaseDistance_f64 northPoint antipode = NaN"
    by (rule distance_near_antipodes)
  hence 2: "calculateBaseDistance_f64 antipode northPoint = NaN"
    by (simp add: calculateBaseDistance_f64_sym [of antipode northPoint])
  show ?thesis
    using 1 2 exact_distance_antipode(1) by (simp add: calculateDistance_eq strictEquals_def)
qed

section \<open>The knowledge base and the cost model\<close>

lemma obstacleLoop_blocked:
  "requiresWheelchairAccess preferences \<Longrightarrow>
   \<exists>obstacle \<in> set os. o_type obstacle = stairs \<or> o_type obstacle = narrow_path \<Longrightarrow>
   obstacleLoop preferences w os = Infinity"
  by (induction os arbitrary: w) auto

text \<open>
  Claim C1. With \<open>requiresWheelchairAccess\<close>, an edge that has a \<open>stairs\<close> or
  \<open>narrow_path\<close> obstacle of the knowledge base within the segment-near test
  (threshold 20) weighs \<open>Infinity\<close>, whatever the other obstacles and the features are.
\<close>

theorem C1_wheelchair_hard_exclusion:
  assumes "requiresWheelchairAccess preferences"
    and "obstacle \<in> set (obstacles svc)"
    and "o_type obstacle = stairs \<or> o_type obstacle = narrow_path"
    and "isPointNearLine (o_location obstacle) start end 20"
  shows "calculatePathWeight svc start end preferences = Infinity"
proof -
  from assms(2,4) have "obstacle \<in> set (findObstaclesOnPath svc start end)"
    by (simp add: findObstaclesOnPath_def)
  with assms(3) have "\<exists>ob \<in> set (findObstaclesOnPath svc start end).
      o_type ob = stairs \<or> o_type ob = narrow_path"
    by blast
  with assms(1) have "obstacleLoop preferences (calculateBaseDistance start end)
      (findObstaclesOnPath svc start end) = Infinity"
    by (rule obstacleLoop_blocked)
  then show ?thesis
    by (simp add: calculatePathWeight_def)
qed

lemma isPointNearLine_at_start: "isPointNearLine a a b 20"
  by (simp add: isPointNearLine_def calculateBaseDistance_same calculateBaseDistance_sym)

theorem C1_wheelchair_hard_exclusion_witness:
  "requiresWheelchairAccess (prefs True True True)
   \<and> obstacleAt stairs (loc 0 0)
        \<in> set (obstacles (kb [featureAt ramp (loc 0 0) True]
                   [obstacleAt poor_lighting (loc 0 0), obstacleAt stairs (loc 0 0)]))
   \<and> isPointNearLine (o_location (obstacleAt stairs (loc 0 0))) (loc 0 0) (loc 0.0001 0) 20
   \<and> calculatePathWeight
        (kb [featureAt ramp (loc 0 0) True]
            [obstacleAt poor_lighting (loc 0 0), obstacleAt stairs (loc 0 0)])
        (loc 0 0) (loc 0.0001 0) (prefs True True True) = Infinity"
proof -
  have 1: "requiresWheelchairAccess (prefs True True True)" by (simp add: prefs_def)
  have 2: "obstacleAt stairs (loc 0 0)
        \<in> set (obstacles (kb [featureAt ramp (loc 0 0) True]
                   [obstacleAt poor_lighting (loc 0 0), obstacleAt stairs (loc 0 0)]))"
    by (simp add: kb_def)
  have 3: "o_type (obstacleAt stairs (loc 0 0)) = stairs \<or> o_type (obstacleAt stairs (loc 0 0)) = narrow_path"
    by (simp add: obstacleAt_def)
  have 4: "isPointNearLine (o_location (obstacleAt stairs (loc 0 0))) (loc 0 0) (loc 0.0001 0) 20"
    by (simp add: obstacleAt_def isPointNearLine_at_start)
  show ?thesis using 1 2 4 C1_wheelchair_hard_exclusion [OF 1 2 3 4] by simp
qed

text \<open>
  Claim C4 says that inactive features never change an edge's weight. \<open>findFeaturesOnPath\<close>
  does not look at \<open>isActive\<close> (only \<open>getAccessibleFeaturesOnRoute\<close> does): with
  wheelchair access required, an inactive ramp at the start of the edge from \<open>(0, 0)\<close> to
  \<open>(0.0001, 0)\<close> multiplies the weight by 0.8, and the weight differs from the one
  computed without the feature.
\<close>

theorem C4_inactive_feature_discounts:
  "calculatePathWeight (kb [featureAt ramp (loc 0 0) False] []) (loc 0 0) (loc 0.0001 0) (prefs True False False)
     = Weight (6371000 * (0.0001 * pi / 180) * 0.8)
   \<and> calculatePathWeight (kb [] []) (loc 0 0) (loc 0.0001 0) (prefs True False False)
     = Weight (6371000 * (0.0001 * pi / 180))
   \<and> calculatePathWeight (kb [featureAt ramp (loc 0 0) False] []) (loc 0 0) (loc 0.0001 0) (prefs True False False)
     \<noteq> calculatePathWeight (kb [] []) (loc 0 0) (loc 0.0001 0) (prefs True False False)"
proof -
  define d where "d = calculateBaseDistance (loc 0 0) (loc 0.0001 0)"
  have d: "d = 6371000 * (0.0001 * pi / 180)" unfolding d_def by (rule dist_step_north)
  have w1: "calculatePathWeight (kb [featureAt ramp (loc 0 0) False] []) (loc 0 0) (loc 0.0001 0)
      (prefs True False False) = Weight (d * 0.8)"
    unfolding d_def
    by (simp add: calculatePathWeight_def findObstaclesOnPath_def findFeaturesOnPath_def kb_def
        featureAt_def prefs_def isPointNearLine_at_start)
  have w2: "calculatePathWeight (kb [] []) (loc 0 0) (loc 0.0001 0) (prefs True False False) = Weight d"
    unfolding d_def
    by (simp add: calculatePathWeight_def findObstaclesOnPath_def findFeaturesOnPath_def kb_def)
  have "d * 0.8 \<noteq> d" unfolding d by simp
  then show ?thesis unfolding w1 w2 unfolding d by simp
qed

lemma accessibleLoop_iff:
  "accessibleLoop preferences os \<longleftrightarrow>
     \<not> (requiresWheelchairAccess preferences \<and>
        (\<exists>obstacle \<in> set os. o_type obstacle = stairs \<or> o_type obstacle = narrow_path))"
  by (induction os) auto

text \<open>
  Claim C5. \<open>isLocationAccessible\<close> is false exactly when wheelchair access is required
  and some \<open>stairs\<close> or \<open>narrow_path\<close> obstacle is less than 20 metres from the point;
  the features of the knowledge base, and the obstacles of the other types, do not
  change the result.
\<close>

theorem C5_isLocationAccessible_iff:
  "(isLocationAccessible svc point preferences = False \<longleftrightarrow>
      requiresWheelchairAccess preferences \<and>
      (\<exists>obstacle \<in> set (obstacles svc).
          (o_type obstacle = stairs \<or> o_type obstacle = narrow_path) \<and>
          calculateBaseDistance point (o_location obstacle) < 20))
   \<and> isLocationAccessible (svc\<lparr>features := fs\<rparr>) point preferences
       = isLocationAccessible svc point preferences
   \<and> isLocationAccessible
        (svc\<lparr>obstacles := filter (\<lambda>obstacle. o_type obstacle = stairs \<or> o_type obstacle = narrow_path)
                              (obstacles svc)\<rparr>) point preferences
       = isLocationAccessible svc point preferences"
  by (auto simp add: isLocationAccessible_def accessibleLoop_iff)

theorem C5_isLocationAccessible_iff_witness:
  "isLocationAccessible (kb [featureAt ramp (loc 0 0) True]
       [obstacleAt construction (loc 0 0), obstacleAt narrow_path (loc 0 0)]) (loc 0 0) (prefs True False False) = False
   \<and> isLocationAccessible (kb [featureAt ramp (loc 0 0) True]
       [obstacleAt construction (loc 0 0), obstacleAt narrow_path (loc 0 0)]) (loc 0 0) (prefs False False False) = True
   \<and> isLocationAccessible (kb [featureAt ramp (loc 0 0) True]
       [obstacleAt construction (loc 0 0)]) (loc 0 0) (prefs True False False) = True"
  using
    C5_isLocationAccessible_iff [of "kb [featureAt ramp (loc 0 0) True]
       [obstacleAt construction (loc 0 0), obstacleAt narrow_path (loc 0 0)]" "loc 0 0" "prefs True False False"]
    C5_isLocationAccessible_iff [of "kb [featureAt ramp (loc 0 0) True]
       [obstacleAt construction (loc 0 0), obstacleAt narrow_path (loc 0 0)]" "loc 0 0" "prefs False False False"]
    C5_isLocationAccessible_iff [of "kb [featureAt ramp (loc 0 0) True]
       [obstacleAt construction (loc 0 0)]" "loc 0 0" "prefs True False False"]
  by (simp add: kb_def obstacleAt_def prefs_def calculateBaseDistance_same)

text \<open>
  Claim C8 does not hold of the code. An obstacle is kept when its distance to \<open>p\<close>, as
  computed, is greater than 1; the stairs at \<open>(- 0.08, 180)\<close> are on the other side of the
  globe from \<open>p = (0.08, 0)\<close>, but the computed distance is \<open>NaN\<close>, the comparison
  \<open>NaN > 1\<close> is false, and \<open>removeObstacle p\<close> removes them.
\<close>

theorem C8_removeObstacle_removes_distant_obstacle:
  "obstacles (removeObstacle northPoint (kb [] [obstacleAt stairs antipode])) = []
   \<and> calculateBaseDistance_f64 antipode northPoint = NaN
   \<and> calculateBaseDistance antipode northPoint = 6371000 * pi
   \<and> 1 < calculateBaseDistance antipode northPoint"
proof -
  have n: "calculateBaseDistance_f64 antipode northPoint = NaN"
    using distance_near_antipodes by (simp add: calculateBaseDistance_f64_sym [of antipode northPoint])
  have "1 < 6371000 * pi" using pi_ge_three by simp
  thus ?thesis
    using n exact_distance_antipode(2)
    by (simp add: removeObstacle_def kb_def obstacleAt_def f64_gt_def)
qed

section \<open>Route annotation: properties\<close>

text \<open>No point is near a segment whose length is \<open>NaN\<close>.\<close>

lemma not_near_NaN_segment:
  assumes "calculateBaseDistance_f64 s e = NaN"
  shows "\<not> isPointNearLine_f64 p s e t"
  by (simp add: isPointNearLine_f64_def Let_def assms)

text \<open>The two ends of a segment along a meridian are near it.\<close>

lemma sum_less_with_threshold:
  assumes "0 \<le> L" and "L \<le> 2 ^ 25"
  shows "f64_lt (fl L) (f64_add (Fin L) (fl 20))"
proof -
  have "\<bar>L\<bar> \<le> 2 ^ 25" using assms by simp
  then obtain r where r: "fl L = Fin r" "\<bar>r - L\<bar> \<le> 2 ^ 25 / 2 ^ 53"
    by (rule fl_cases [where k = 25]) simp_all
  have "\<bar>L + 20\<bar> \<le> 2 ^ 26" using assms by simp
  then obtain q where q: "fl (L + 20) = Fin q" "\<bar>q - (L + 20)\<bar> \<le> 2 ^ 26 / 2 ^ 53"
    by (rule fl_cases [where k = 26]) simp_all
  have "(2::real) ^ 25 / 2 ^ 53 < 1" "(2::real) ^ 26 / 2 ^ 53 < 1" by simp_all
  hence "r < q" using r(2) q(2) by linarith
  thus ?thesis by (simp add: fl_20 r q)
qed

lemma ends_near_meridian_segment:
  assumes "longitude s = longitude e"
    and "\<bar>latitude s\<bar> \<le> 2 ^ 10" and "\<bar>latitude e\<bar> \<le> 2 ^ 10" and "\<bar>longitude s\<bar> \<le> 2 ^ 10"
  shows "isPointNearLine_f64 s s e (fl 20)" and "isPointNearLine_f64 e s e (fl 20)"
proof -
  obtain L where L: "calculateBaseDistance_f64 s e = Fin L" "0 \<le> L" "L \<le> 2 ^ 25"
    using assms by (rule distance_meridian_finite)
  have L': "calculateBaseDistance_f64 e s = Fin L"
    using L(1) by (simp add: calculateBaseDistance_f64_sym [of e s])
  have s: "calculateBaseDistance_f64 s s = Fin 0"
    using assms(2,4) by (rule distance_same_point)
  have e: "calculateBaseDistance_f64 e e = Fin 0"
    using assms(1,3,4) by (intro distance_same_point) simp_all
  have lt: "f64_lt (fl L) (f64_add (Fin L) (fl 20))"
    using L(2,3) by (rule sum_less_with_threshold)
  show "isPointNearLine_f64 s s e (fl 20)"
    using lt by (simp add: isPointNearLine_f64_def Let_def L s)
  show "isPointNearLine_f64 e s e (fl 20)"
    using lt by (simp add: isPointNearLine_f64_def Let_def L L' e)
qed

text \<open>The latitudes of the ramp and of the rest area are different doubles.\<close>

lemma fl_latitude_south: "fl (801 / 10000) = Fin (1442953320609507 / 2 ^ 54)"
  using fl_enclosed [of "801 / 10000" 56 5771813282438028] by simp

lemma different_coordinates:
  "\<not> sameCoordinates (featureAt ramp antipode True) (featureAt rest_area southPoint True)"
proof -
  have "fl (- (8 / 100)) = f64_neg (fl (8 / 100))" by (rule fl_uminus)
  hence a: "fl (- (8 / 100)) = Fin (- (5764607523034235 / 2 ^ 56))"
    unfolding fl_latitude by simp
  have "fl (- (801 / 10000)) = f64_neg (fl (801 / 10000))" by (rule fl_uminus)
  hence b: "fl (- (801 / 10000)) = Fin (- (1442953320609507 / 2 ^ 54))"
    unfolding fl_latitude_south by simp
  have "fl (- (8 / 100)) \<noteq> fl (- (801 / 10000))" unfolding a b by simp
  thus ?thesis
    by (simp add: sameCoordinates_def featureAt_def antipode_def southPoint_def loc_def
        strictEquals_def)
qed

text \<open>In exact arithmetic the rest area is the nearer of the two to \<open>(0.08, 0)\<close>.\<close>

lemma exact_distance_south:
  "calculateBaseDistance northPoint southPoint < 6371000 * pi"
proof -
  define t :: real where "t = pi / 3600000"
  have t: "0 < t" "t < pi / 2" by (simp_all add: t_def)
  have c0: "0 < cos t" using t by (intro cos_gt_zero) simp_all
  have "cos t < cos 0" using t pi_gt_zero by (intro cos_monotone_0_pi) simp_all
  hence c1: "cos t < 1" by simp
  have "(cos t)\<^sup>2 < 1\<^sup>2" using c0 c1 by (intro power_strict_mono) simp_all
  hence sq: "(cos t)\<^sup>2 < 1" by simp
  define p1 :: real where "p1 = 8 / 100 * pi / 180"
  define p2 :: real where "p2 = - (801 / 10000) * pi / 180"
  have "(p1 + p2) / 2 = - t" by (simp add: p1_def p2_def t_def)
  hence h: "hav_a p1 p2 (p2 - p1) pi = (cos t)\<^sup>2"
    unfolding hav_a_decomp by simp
  have a: "calculateBaseDistance northPoint southPoint
      = 6371000 * (2 * arcsin (sqrt (hav_a p1 p2 (p2 - p1) pi)))"
    unfolding calculateBaseDistance_arcsin
    by (simp add: northPoint_def southPoint_def loc_def p1_def p2_def)
  have "sqrt ((cos t)\<^sup>2) < 1" using c0 c1 by simp
  moreover have "- 1 \<le> sqrt ((cos t)\<^sup>2)" using c0 by simp
  ultimately have "arcsin (sqrt ((cos t)\<^sup>2)) < arcsin 1"
    by (intro arcsin_less_arcsin) simp_all
  thus ?thesis unfolding a h by simp
qed

text \<open>
  The comparison function of the sort returns \<open>NaN\<close> whenever one of the two distances is
  \<open>NaN\<close>; the rest area is then inserted behind the ramp.
\<close>

lemma annotation_of_antipodal_route:
  "getAccessibleFeaturesOnRoute antipodalKb [northPoint, antipode, southPoint]
     = [featureAt ramp antipode True, featureAt rest_area southPoint True]"
proof -
  have bounds: "longitude antipode = longitude southPoint"
    "\<bar>latitude antipode\<bar> \<le> 2 ^ 10" "\<bar>latitude southPoint\<bar> \<le> 2 ^ 10" "\<bar>longitude antipode\<bar> \<le> 2 ^ 10"
    by (simp_all add: antipode_def southPoint_def loc_def)
  have near: "isPointNearLine_f64 antipode antipode southPoint (fl 20)"
    "isPointNearLine_f64 southPoint antipode southPoint (fl 20)"
    using bounds by (rule ends_near_meridian_segment)+
  have far: "\<not> isPointNearLine_f64 p northPoint antipode t" for p t
    using distance_near_antipodes by (rule not_near_NaN_segment)
  have seg0: "featuresOnSegment antipodalKb northPoint antipode = []"
    by (simp add: featuresOnSegment_def antipodalKb_def kb_def far)
  have seg1: "featuresOnSegment antipodalKb antipode southPoint
      = [featureAt ramp antipode True, featureAt rest_area southPoint True]"
    by (simp add: featuresOnSegment_def antipodalKb_def kb_def featureAt_def near)
  have collected: "fold (\<lambda>i relevant. pushNew relevant
        (featuresOnSegment antipodalKb ([northPoint, antipode, southPoint] ! i)
           ([northPoint, antipode, southPoint] ! (i + 1))))
      [0 ..< length [northPoint, antipode, southPoint] - 1] []
      = [featureAt ramp antipode True, featureAt rest_area southPoint True]"
    using different_coordinates by (simp add: upt_rec seg0 seg1)
  have key: "calculateBaseDistance_f64 northPoint (f_location (featureAt ramp antipode True)) = NaN"
    by (simp add: featureAt_def distance_near_antipodes)
  show ?thesis
    unfolding getAccessibleFeaturesOnRoute_def Let_def collected
    by (simp add: Array_sort_def key f64_sub_def)
qed

text \<open>
  Claim C6 does not hold of the code. On the route from \<open>(0.08, 0)\<close> over \<open>(- 0.08, 180)\<close> to
  \<open>(- 0.0801, 180)\<close>, with a ramp at the second point and a rest area at the third, both
  features are returned, the ramp first. The distance of the ramp from the first point of
  the route is computed as \<open>NaN\<close>, so the comparison function of the sort returns \<open>NaN\<close> and
  orders nothing: the result is not in ascending order of the computed distances (no
  arrangement of the two features is), and by the exact distances the rest area, which
  comes second, is the nearer one.
\<close>

theorem C6_features_not_sorted:
  "getAccessibleFeaturesOnRoute antipodalKb [northPoint, antipode, southPoint]
     = [featureAt ramp antipode True, featureAt rest_area southPoint True]
   \<and> calculateBaseDistance_f64 northPoint antipode = NaN
   \<and> \<not> sortedByDistance northPoint
         (getAccessibleFeaturesOnRoute antipodalKb [northPoint, antipode, southPoint])
   \<and> \<not> sortedByDistance northPoint
         [featureAt rest_area southPoint True, featureAt ramp antipode True]
   \<and> calculateBaseDistance northPoint southPoint < calculateBaseDistance northPoint antipode"
proof -
  have key: "calculateBaseDistance_f64 northPoint (f_location (featureAt ramp antipode True)) = NaN"
    by (simp add: featureAt_def distance_near_antipodes)
  have a: "\<not> sortedByDistance northPoint
      [featureAt ramp antipode True, featureAt rest_area southPoint True]"
    by (simp add: sortedByDistance_def key f64_le_def strictEquals_def)
  have b: "\<not> sortedByDistance northPoint
      [featureAt rest_area southPoint True, featureAt ramp antipode True]"
    by (simp add: sortedByDistance_def key f64_le_def strictEquals_def)
  show ?thesis
    using a b exact_distance_south
    by (simp add: annotation_of_antipodal_route distance_near_antipodes exact_distance_antipode)
qed

section \<open>The search: invariant\<close>

subsection \<open>Weights are not negative\<close>

lemma obstacleLoop_nonneg:
  "obstacleLoop p w os = Weight w' \<Longrightarrow> 0 \<le> w \<Longrightarrow> 0 \<le> w'"
proof (induction os arbitrary: w)
  case Nil
  then show ?case by simp
next
  case (Cons ob os)
  then show ?case by (auto split: if_splits)
qed

lemma featureLoop_nonneg: "0 \<le> w \<Longrightarrow> 0 \<le> featureLoop p w fs"
  by (induction fs arbitrary: w) (simp_all add: Let_def)

lemma calculatePathWeight_nonneg:
  assumes "calculatePathWeight svc a b p = Weight w"
  shows "0 \<le> w"
proof -
  from assms obtain w' where
    ob: "obstacleLoop p (calculateBaseDistance a b) (findObstaclesOnPath svc a b) = Weight w'"
    and w: "w = featureLoop p w' (findFeaturesOnPath svc a b)"
    by (auto simp add: calculatePathWeight_def split: weight.splits)
  from ob have "0 \<le> w'" using calculateBaseDistance_nonneg by (rule obstacleLoop_nonneg)
  then show ?thesis unfolding w by (rule featureLoop_nonneg)
qed

subsection \<open>The node selected from the open set\<close>

lemma lowestLoop_member:
  "lowestLoop fS xs lowest node = Some n \<Longrightarrow> n \<in> set xs \<or> node = Some n"
  by (induction xs arbitrary: lowest node) (auto simp add: Let_def split: if_splits)

lemma getLowestFScore_member:
  "getLowestFScore xs fS = Inr n \<Longrightarrow> n \<in> set xs"
  using lowestLoop_member [of fS xs Infinity None n]
  by (auto simp add: getLowestFScore_def split: option.splits)

lemma lowestLoop_keeps: "node \<noteq> None \<Longrightarrow> lowestLoop fS xs lowest node \<noteq> None"
  by (induction xs arbitrary: lowest node) (auto simp add: Let_def)

lemma getLowestFScore_no_error:
  assumes "xs \<noteq> []" and "\<forall>x \<in> set xs. locationToKey (snd x) \<in> dom fS"
  shows "\<exists>n. getLowestFScore xs fS = Inr n"
proof -
  from assms obtain x rest v where xs: "xs = x # rest" and v: "fS (locationToKey (snd x)) = Some v"
    by (cases xs) auto
  have "lowestLoop fS xs Infinity None = lowestLoop fS rest (Weight v) (Some x)"
    by (simp add: xs getOrInfinity_def v)
  then have "lowestLoop fS xs Infinity None \<noteq> None" by (simp add: lowestLoop_keeps)
  then show ?thesis by (auto simp add: getLowestFScore_def split: option.splits)
qed

subsection \<open>The first node with the lowest score is selected\<close>

lemma lowestLoop_skip:
  assumes "weight_less (Weight v) lowest"
    and "\<forall>y \<in> set pre. weight_less (Weight v) (getOrInfinity fS (locationToKey (snd y)))"
  shows "\<exists>lowest' node'. lowestLoop fS (pre @ rest) lowest node = lowestLoop fS rest lowest' node'
           \<and> weight_less (Weight v) lowest'"
  using assms
proof (induction pre arbitrary: lowest node)
  case Nil
  then show ?case by auto
next
  case (Cons y pre)
  let ?s = "getOrInfinity fS (locationToKey (snd y))"
  have sy: "weight_less (Weight v) ?s" using Cons.prems(2) by simp
  have rest: "\<forall>y \<in> set pre. weight_less (Weight v) (getOrInfinity fS (locationToKey (snd y)))"
    using Cons.prems(2) by simp
  show ?case
  proof (cases "weight_less ?s lowest")
    case True
    then have "lowestLoop fS ((y # pre) @ rest) lowest node = lowestLoop fS (pre @ rest) ?s (Some y)"
      by simp
    then show ?thesis using Cons.IH [OF sy rest, of "Some y"] by simp
  next
    case False
    then have "lowestLoop fS ((y # pre) @ rest) lowest node = lowestLoop fS (pre @ rest) lowest node"
      by simp
    then show ?thesis using Cons.IH [OF Cons.prems(1) rest, of node] by simp
  qed
qed

lemma lowestLoop_hold:
  assumes "\<forall>y \<in> set post. \<not> weight_less (getOrInfinity fS (locationToKey (snd y))) (Weight v)"
  shows "lowestLoop fS post (Weight v) (Some x) = Some x"
  using assms by (induction post) simp_all

lemma getLowestFScore_first_min:
  assumes "fS (locationToKey (snd x)) = Some v"
    and "\<forall>y \<in> set pre. weight_less (Weight v) (getOrInfinity fS (locationToKey (snd y)))"
    and "\<forall>y \<in> set post. \<not> weight_less (getOrInfinity fS (locationToKey (snd y))) (Weight v)"
  shows "getLowestFScore (pre @ x # post) fS = Inr x"
proof -
  have "weight_less (Weight v) Infinity" by simp
  from lowestLoop_skip [OF this assms(2), of "x # post" None] obtain lowest' node' where
    1: "lowestLoop fS (pre @ x # post) Infinity None = lowestLoop fS (x # post) lowest' node'"
    and 2: "weight_less (Weight v) lowest'"
    by blast
  have "lowestLoop fS (x # post) lowest' node' = lowestLoop fS post (Weight v) (Some x)"
    using 2 assms(1) by (simp add: getOrInfinity_def)
  then have "lowestLoop fS (pre @ x # post) Infinity None = Some x"
    using 1 lowestLoop_hold [OF assms(3)] by simp
  then show ?thesis by (simp add: getLowestFScore_def)
qed

subsection \<open>The invariant is kept\<close>

lemma searchInv_initial: "searchInv start (initialSearch start end)"
  by (simp add: searchInv_def initialSearch_def)

lemma relax_cases:
  "relax svc end p cur nb st = st \<or>
   (\<exists>g w. gScore st (locationToKey cur) = Some g
      \<and> calculatePathWeight svc cur (snd nb) p = Weight w
      \<and> (\<forall>v. gScore st (locationToKey (snd nb)) = Some v \<longrightarrow> g + w < v)
      \<and> relax svc end p cur nb st =
          st\<lparr>cameFrom := (cameFrom st)(locationToKey (snd nb) \<mapsto> cur),
             gScore := (gScore st)(locationToKey (snd nb) \<mapsto> g + w),
             fScore := (fScore st)(locationToKey (snd nb) \<mapsto> g + w + estimateDistance (snd nb) end),
             openSet := set_add nb (openSet st)\<rparr>)"
  by (auto simp add: relax_def Let_def getOrInfinity_def split: option.splits weight.splits)

lemma set_set_add: "set (set_add x s) \<subseteq> insert x (set s)"
  by (auto simp add: set_add_def)

lemma set_set_delete: "set (set_delete x s) \<subseteq> set s"
  by (auto simp add: set_delete_def)

lemma relax_inv:
  assumes inv: "searchInv start st"
    and cur: "cur = start \<or> locationToKey cur \<in> dom (cameFrom st)"
    and nb: "locationToKey (snd nb) \<in> locationToKey ` set (gridNeighbors cur)"
  shows "searchInv start (relax svc end p cur nb st)"
proof -
  consider (same) "relax svc end p cur nb st = st"
    | (upd) g w where "gScore st (locationToKey cur) = Some g"
        "calculatePathWeight svc cur (snd nb) p = Weight w"
        "\<forall>v. gScore st (locationToKey (snd nb)) = Some v \<longrightarrow> g + w < v"
        "relax svc end p cur nb st =
          st\<lparr>cameFrom := (cameFrom st)(locationToKey (snd nb) \<mapsto> cur),
             gScore := (gScore st)(locationToKey (snd nb) \<mapsto> g + w),
             fScore := (fScore st)(locationToKey (snd nb) \<mapsto> g + w + estimateDistance (snd nb) end),
             openSet := set_add nb (openSet st)\<rparr>"
    using relax_cases [of svc "end" p cur nb st] by blast
  then show ?thesis
  proof cases
    case same
    then show ?thesis using inv by simp
  next
    case upd
    have g0: "0 \<le> g" using inv upd(1) unfolding searchInv_def by blast
    have z0: "gScore st (locationToKey start) = Some 0" using inv unfolding searchInv_def by blast
    have w0: "0 \<le> w" using upd(2) by (rule calculatePathWeight_nonneg)
    have ne: "locationToKey (snd nb) \<noteq> locationToKey start"
    proof
      assume "locationToKey (snd nb) = locationToKey start"
      then have "gScore st (locationToKey (snd nb)) = Some 0" using z0 by simp
      then have "g + w < 0" using upd(3) by blast
      then show False using g0 w0 by simp
    qed
    let ?k = "locationToKey (snd nb)"
    from inv have o: "\<And>x. x \<in> set (openSet st) \<Longrightarrow>
          snd x = start \<or> locationToKey (snd x) \<in> dom (cameFrom st)"
      and c: "\<And>k q. cameFrom st k = Some q \<Longrightarrow>
          (q = start \<or> locationToKey q \<in> dom (cameFrom st))
          \<and> k \<in> locationToKey ` set (gridNeighbors q)"
      and s: "locationToKey start \<notin> dom (cameFrom st)"
      and z: "gScore st (locationToKey start) = Some 0"
      and n: "\<And>k v. gScore st k = Some v \<Longrightarrow> 0 \<le> v"
      and f: "\<And>x. x \<in> set (openSet st) \<Longrightarrow> locationToKey (snd x) \<in> dom (fScore st)"
      unfolding searchInv_def by blast+
    have d: "dom ((cameFrom st)(?k \<mapsto> cur)) = insert ?k (dom (cameFrom st))" by simp
    have i1: "\<forall>x \<in> set (set_add nb (openSet st)).
        snd x = start \<or> locationToKey (snd x) \<in> dom ((cameFrom st)(?k \<mapsto> cur))"
    proof
      fix x assume "x \<in> set (set_add nb (openSet st))"
      then have "x = nb \<or> x \<in> set (openSet st)" using set_set_add [of nb "openSet st"] by blast
      then show "snd x = start \<or> locationToKey (snd x) \<in> dom ((cameFrom st)(?k \<mapsto> cur))"
        unfolding d using o by blast
    qed
    have i2: "\<forall>k q. ((cameFrom st)(?k \<mapsto> cur)) k = Some q \<longrightarrow>
          (q = start \<or> locationToKey q \<in> dom ((cameFrom st)(?k \<mapsto> cur)))
          \<and> k \<in> locationToKey ` set (gridNeighbors q)"
    proof (intro allI impI)
      fix k q assume kq: "((cameFrom st)(?k \<mapsto> cur)) k = Some q"
      show "(q = start \<or> locationToKey q \<in> dom ((cameFrom st)(?k \<mapsto> cur)))
          \<and> k \<in> locationToKey ` set (gridNeighbors q)"
      proof (cases "k = ?k")
        case True
        then have "q = cur" using kq by simp
        then show ?thesis unfolding d using cur nb True by blast
      next
        case False
        then have "cameFrom st k = Some q" using kq by simp
        then show ?thesis unfolding d using c by blast
      qed
    qed
    have i3: "locationToKey start \<notin> dom ((cameFrom st)(?k \<mapsto> cur))"
      unfolding d using s ne by simp
    have i4: "((gScore st)(?k \<mapsto> g + w)) (locationToKey start) = Some 0"
      using z ne by simp
    have i5: "\<forall>k v. ((gScore st)(?k \<mapsto> g + w)) k = Some v \<longrightarrow> 0 \<le> v"
    proof (intro allI impI)
      fix k v assume kv: "((gScore st)(?k \<mapsto> g + w)) k = Some v"
      show "0 \<le> v"
      proof (cases "k = ?k")
        case True
        then show ?thesis using kv g0 w0 by simp
      next
        case False
        then show ?thesis using kv n by simp
      qed
    qed
    have i6: "\<forall>x \<in> set (set_add nb (openSet st)).
        locationToKey (snd x) \<in> dom ((fScore st)(?k \<mapsto> g + w + estimateDistance (snd nb) end))"
    proof
      fix x assume "x \<in> set (set_add nb (openSet st))"
      then have "x = nb \<or> x \<in> set (openSet st)" using set_set_add [of nb "openSet st"] by blast
      then have "locationToKey (snd x) = ?k \<or> locationToKey (snd x) \<in> dom (fScore st)"
        using f by blast
      then show "locationToKey (snd x) \<in> dom ((fScore st)(?k \<mapsto> g + w + estimateDistance (snd nb) end))"
        by (simp only: dom_fun_upd option.simps if_False insert_iff)
    qed
    show ?thesis
      unfolding upd(4) searchInv_def using i1 i2 i3 i4 i5 i6 by simp
  qed
qed

lemma relax_cameFrom_dom: "dom (cameFrom st) \<subseteq> dom (cameFrom (relax svc end p cur nb st))"
  using relax_cases [of svc "end" p cur nb st] by auto

lemma fold_relax_inv:
  assumes "searchInv start st"
    and "cur = start \<or> locationToKey cur \<in> dom (cameFrom st)"
    and "\<forall>nb \<in> set nbs. locationToKey (snd nb) \<in> locationToKey ` set (gridNeighbors cur)"
  shows "searchInv start (fold (relax svc end p cur) nbs st)"
  using assms
proof (induction nbs arbitrary: st)
  case Nil
  then show ?case by simp
next
  case (Cons nb nbs)
  have 1: "searchInv start (relax svc end p cur nb st)"
    using Cons.prems by (intro relax_inv) simp_all
  have 2: "cur = start \<or> locationToKey cur \<in> dom (cameFrom (relax svc end p cur nb st))"
    using Cons.prems(2) relax_cameFrom_dom [of st svc "end" p cur nb] by blast
  show ?case using Cons.IH [OF 1 2] Cons.prems(3) by simp
qed

lemma getAccessibleNeighbors_subset:
  "set (getAccessibleNeighbors svc cur p) \<subseteq> set (gridNeighbors cur)"
  by (auto simp add: getAccessibleNeighbors_def)

lemma expand_inv:
  assumes inv: "searchInv start st" and cur: "current \<in> set (openSet st)"
  shows "searchInv start (expand svc end p current st)"
proof -
  let ?ns = "getAccessibleNeighbors svc (snd current) p"
  let ?st1 = "st\<lparr>openSet := set_delete current (openSet st), nextRef := nextRef st + length ?ns\<rparr>"
  have sub: "\<And>x. x \<in> set (set_delete current (openSet st)) \<Longrightarrow> x \<in> set (openSet st)"
    using set_set_delete [of current "openSet st"] by blast
  have 1: "searchInv start ?st1"
    using inv sub unfolding searchInv_def by simp
  have 2: "snd current = start \<or> locationToKey (snd current) \<in> dom (cameFrom ?st1)"
    using inv cur unfolding searchInv_def by simp
  have 3: "\<forall>nb \<in> set (zip [nextRef st ..< nextRef st + length ?ns] ?ns).
      locationToKey (snd nb) \<in> locationToKey ` set (gridNeighbors (snd current))"
    using getAccessibleNeighbors_subset [of svc "snd current" p]
    by (auto dest!: set_zip_rightD)
  show ?thesis
    unfolding expand_def Let_def by (rule fold_relax_inv [OF 1 2 3])
qed

subsection \<open>The loop, turn by turn\<close>

lemma searchLoop_step:
  "searchStep svc end p st = Some st' \<Longrightarrow> searchLoop svc end p st = searchLoop svc end p st'"
  by (subst searchLoop.simps) (auto simp add: searchStep_def split: if_splits sum.splits)

lemma searchLoop_stateAfter:
  "stateAfter svc end p st n = Some s \<Longrightarrow> searchLoop svc end p st = searchLoop svc end p s"
proof (induction n arbitrary: st)
  case 0
  then show ?case by simp
next
  case (Suc n)
  then obtain st' where st': "searchStep svc end p st = Some st'"
    and rest: "stateAfter svc end p st' n = Some s"
    by (auto split: option.splits)
  show ?case using searchLoop_step [OF st'] Suc.IH [OF rest] by simp
qed

lemma searchLoop_empty: "openSet s = [] \<Longrightarrow> searchLoop svc end p s = Some (Inl NoRouteFound)"
  by (subst searchLoop.simps) simp

lemma getLowestFScore_error: "getLowestFScore xs fS = Inl e \<Longrightarrow> e = EmptyFrontier"
  by (auto simp add: getLowestFScore_def split: option.splits)

subsection \<open>Edges and neighbours in the empty knowledge base\<close>

lemma emptyKb_weight:
  "calculatePathWeight (kb [] []) a b p = Weight (calculateBaseDistance a b)"
  by (simp add: calculatePathWeight_def findObstaclesOnPath_def findFeaturesOnPath_def kb_def)

lemma emptyKb_neighbors: "getAccessibleNeighbors (kb [] []) l p = gridNeighbors l"
  by (simp add: getAccessibleNeighbors_def isLocationAccessible_def kb_def)

lemma relax_emptyKb_eq:
  "relax (kb [] []) end p cur nb st =
     (case gScore st (locationToKey cur) of
        None \<Rightarrow> st
      | Some g \<Rightarrow>
          if (case gScore st (locationToKey (snd nb)) of None \<Rightarrow> True
              | Some v \<Rightarrow> g + calculateBaseDistance cur (snd nb) < v)
          then st\<lparr>cameFrom := (cameFrom st)(locationToKey (snd nb) \<mapsto> cur),
                  gScore := (gScore st)(locationToKey (snd nb) \<mapsto> g + calculateBaseDistance cur (snd nb)),
                  fScore := (fScore st)(locationToKey (snd nb) \<mapsto>
                     g + calculateBaseDistance cur (snd nb) + calculateBaseDistance (snd nb) end),
                  openSet := set_add nb (openSet st)\<rparr>
          else st)"
  by (simp add: relax_def emptyKb_weight Let_def getOrInfinity_def estimateDistance_def
      split: option.splits)

lemma upt_1_9: "[Suc 0 ..< 9] = [1, 2, 3, 4, 5, 6, 7, 8]"
  by (simp add: upt_rec)

lemma first_expansion_empty:
  "expand (kb [] []) e p (0, gp 0 0) (initialSearch (gp 0 0) e) = afterFirstEmpty e"
  by (simp add: expand_def emptyKb_neighbors gridNeighbors_gp initialSearch_def set_delete_def
      upt_1_9 relax_emptyKb_eq set_add_def afterFirstEmpty_def estimateDistance_def)

section \<open>The search: what a returned route is\<close>

lemma reconstructLoop_correct:
  assumes "reconstructLoop cF cur path = Some res"
  shows "(\<forall>k q. cF k = Some q \<longrightarrow>
            (q = start \<or> locationToKey q \<in> dom cF) \<and> k \<in> locationToKey ` set (gridNeighbors q))
      \<longrightarrow> locationToKey start \<notin> dom cF
      \<longrightarrow> (cur = start \<or> locationToKey cur \<in> dom cF)
      \<longrightarrow> path \<noteq> [] \<and> hd path = cur \<and> stepwise path
      \<longrightarrow> res \<noteq> [] \<and> hd res = start \<and> last res = last path \<and> stepwise res"
proof (rule reconstructLoop.raw_induct [where P = "\<lambda>cF cur path res.
    (\<forall>k q. cF k = Some q \<longrightarrow>
            (q = start \<or> locationToKey q \<in> dom cF) \<and> k \<in> locationToKey ` set (gridNeighbors q))
      \<longrightarrow> locationToKey start \<notin> dom cF
      \<longrightarrow> (cur = start \<or> locationToKey cur \<in> dom cF)
      \<longrightarrow> path \<noteq> [] \<and> hd path = cur \<and> stepwise path
      \<longrightarrow> res \<noteq> [] \<and> hd res = start \<and> last res = last path \<and> stepwise res", OF _ assms])
  fix loop cF cur path res
  assume IH: "\<And>cF cur path res. loop cF cur path = Some res \<Longrightarrow>
    (\<forall>k q. cF k = Some q \<longrightarrow>
            (q = start \<or> locationToKey q \<in> dom cF) \<and> k \<in> locationToKey ` set (gridNeighbors q))
      \<longrightarrow> locationToKey start \<notin> dom cF
      \<longrightarrow> (cur = start \<or> locationToKey cur \<in> dom cF)
      \<longrightarrow> path \<noteq> [] \<and> hd path = cur \<and> stepwise path
      \<longrightarrow> res \<noteq> [] \<and> hd res = start \<and> last res = last path \<and> stepwise res"
    and eq: "(case cF (locationToKey cur) of None \<Rightarrow> Some path
              | Some previous \<Rightarrow> loop cF previous (previous # path)) = Some res"
  show "(\<forall>k q. cF k = Some q \<longrightarrow>
            (q = start \<or> locationToKey q \<in> dom cF) \<and> k \<in> locationToKey ` set (gridNeighbors q))
      \<longrightarrow> locationToKey start \<notin> dom cF
      \<longrightarrow> (cur = start \<or> locationToKey cur \<in> dom cF)
      \<longrightarrow> path \<noteq> [] \<and> hd path = cur \<and> stepwise path
      \<longrightarrow> res \<noteq> [] \<and> hd res = start \<and> last res = last path \<and> stepwise res"
  proof (intro impI)
    assume c: "\<forall>k q. cF k = Some q \<longrightarrow>
            (q = start \<or> locationToKey q \<in> dom cF) \<and> k \<in> locationToKey ` set (gridNeighbors q)"
      and s: "locationToKey start \<notin> dom cF"
      and cur: "cur = start \<or> locationToKey cur \<in> dom cF"
      and path: "path \<noteq> [] \<and> hd path = cur \<and> stepwise path"
    show "res \<noteq> [] \<and> hd res = start \<and> last res = last path \<and> stepwise res"
    proof (cases "cF (locationToKey cur)")
      case None
      then have "res = path" using eq by simp
      moreover have "cur = start" using cur None by auto
      ultimately show ?thesis using path by simp
    next
      case (Some previous)
      then have call: "loop cF previous (previous # path) = Some res" using eq by simp
      have p1: "previous = start \<or> locationToKey previous \<in> dom cF"
        and p2: "locationToKey cur \<in> locationToKey ` set (gridNeighbors previous)"
        using c Some by blast+
      obtain rest where rest: "path = cur # rest" using path by (cases path) auto
      have "stepwise (previous # path)" unfolding rest using p2 path rest by simp
      then have "res \<noteq> [] \<and> hd res = start \<and> last res = last (previous # path) \<and> stepwise res"
        using IH [OF call] c s p1 by simp
      then show ?thesis using path by simp
    qed
  qed
qed

lemma searchLoop_result:
  assumes "searchLoop svc end p st = Some r"
  shows "searchInv start st \<longrightarrow>
     (case r of Inl e \<Rightarrow> e = NoRouteFound | Inr route \<Rightarrow> completeRoute start end route)"
proof (rule searchLoop.raw_induct [where P = "\<lambda>svc end p st r. searchInv start st \<longrightarrow>
     (case r of Inl e \<Rightarrow> e = NoRouteFound | Inr route \<Rightarrow> completeRoute start end route)",
     OF _ assms])
  fix loop svc "end" p st r
  assume IH: "\<And>svc end p st r. loop svc end p st = Some r \<Longrightarrow> searchInv start st \<longrightarrow>
     (case r of Inl e \<Rightarrow> e = NoRouteFound | Inr route \<Rightarrow> completeRoute start end route)"
    and eq: "(if openSet st = [] then Some (Inl NoRouteFound)
      else case getLowestFScore (openSet st) (fScore st) of
           Inl e \<Rightarrow> Some (Inl e)
           | Inr current \<Rightarrow>
               if isAtDestination (snd current) end
               then map_option Inr (reconstructPath (cameFrom st) (snd current))
               else loop svc end p (expand svc end p current st)) = Some r"
  show "searchInv start st \<longrightarrow>
     (case r of Inl e \<Rightarrow> e = NoRouteFound | Inr route \<Rightarrow> completeRoute start end route)"
  proof
    assume inv: "searchInv start st"
    show "case r of Inl e \<Rightarrow> e = NoRouteFound | Inr route \<Rightarrow> completeRoute start end route"
    proof (cases "openSet st = []")
      case True
      then show ?thesis using eq by auto
    next
      case False
      have "\<forall>x \<in> set (openSet st). locationToKey (snd x) \<in> dom (fScore st)"
        using inv unfolding searchInv_def by blast
      with False obtain current where sel: "getLowestFScore (openSet st) (fScore st) = Inr current"
        using getLowestFScore_no_error by blast
      then have mem: "current \<in> set (openSet st)" by (rule getLowestFScore_member)
      show ?thesis
      proof (cases "isAtDestination (snd current) end")
        case True
        then obtain route where r: "r = Inr route"
          and rec: "reconstructLoop (cameFrom st) (snd current) [snd current] = Some route"
          using eq False sel by (auto simp add: reconstructPath_def)
        have cur: "snd current = start \<or> locationToKey (snd current) \<in> dom (cameFrom st)"
          using inv mem unfolding searchInv_def by blast
        have c: "\<forall>k q. cameFrom st k = Some q \<longrightarrow>
            (q = start \<or> locationToKey q \<in> dom (cameFrom st))
            \<and> k \<in> locationToKey ` set (gridNeighbors q)"
          and s: "locationToKey start \<notin> dom (cameFrom st)"
          using inv unfolding searchInv_def by blast+
        have "route \<noteq> [] \<and> hd route = start \<and> last route = last [snd current] \<and> stepwise route"
          using reconstructLoop_correct [OF rec, of start] c s cur by simp
        then show ?thesis using True unfolding r by (simp add: completeRoute_def isAtDestination_def)
      next
        case no: False
        then have call: "loop svc end p (expand svc end p current st) = Some r"
          using eq False sel by simp
        have "searchInv start (expand svc end p current st)"
          using inv mem by (rule expand_inv)
        then show ?thesis using IH [OF call] by simp
      qed
    qed
  qed
qed

text \<open>
  Claim C2. A route returned by \<open>findAccessibleRoute\<close> is not empty, its first element is
  the \<open>start\<close> argument itself, and its last element is less than 5 metres from \<open>end\<close>.
\<close>

theorem C2_found_route:
  assumes "findAccessibleRoute svc start end preferences = Some (Inr route)"
  shows "route \<noteq> [] \<and> hd route = start \<and> calculateBaseDistance (last route) end < 5"
  using searchLoop_result [of svc "end" preferences "initialSearch start end" "Inr route" start]
    assms searchInv_initial [of start "end"]
  by (simp add: findAccessibleRoute_def completeRoute_def)

lemma one_step_east:
  "findAccessibleRoute (kb [] []) (gp 0 0) (gp 0 1) p = Some (Inr [gp 0 0, gp 0 1])"
proof -
  let ?e = "gp 0 1"
  have sp: "0 < stepLength" using stepLength_ge by simp
  have dp: "0 < diagonalLength" using step_lt_diagonal sp by linarith
  have far: "2 * stepLength < calculateBaseDistance (gp i (- 1)) ?e" if "\<bar>i\<bar> = 1" for i
    using that by (intro dist_gp_far) auto
  have dg: "calculateBaseDistance (gp i 0) ?e = diagonalLength"
    "calculateBaseDistance (gp 0 0) (gp i 1) = diagonalLength" if "\<bar>i\<bar> = 1" for i
    using that by (intro dist_gp_diagonal; simp)+
  have nn: "0 \<le> calculateBaseDistance (gp 0 0) (gp i j)" for i j
    by (rule calculateBaseDistance_nonneg)
  have sel0: "getLowestFScore [(0, gp 0 0)] [locationToKey (gp 0 0) \<mapsto> estimateDistance (gp 0 0) ?e]
      = Inr (0, gp 0 0)"
    by (simp add: getLowestFScore_def getOrInfinity_def)
  have far0: "\<not> isAtDestination (gp 0 0) ?e"
    using stepLength_ge by (simp add: isAtDestination_def dist_gp_equator)
  have "searchStep (kb [] []) ?e p (initialSearch (gp 0 0) ?e)
      = Some (expand (kb [] []) ?e p (0, gp 0 0) (initialSearch (gp 0 0) ?e))"
    using far0 by (simp add: searchStep_def initialSearch_def sel0)
  then have "searchStep (kb [] []) ?e p (initialSearch (gp 0 0) ?e) = Some (afterFirstEmpty ?e)"
    unfolding first_expansion_empty .
  then have step1: "searchLoop (kb [] []) ?e p (initialSearch (gp 0 0) ?e)
      = searchLoop (kb [] []) ?e p (afterFirstEmpty ?e)"
    by (rule searchLoop_step)
  have fs: "fScore (afterFirstEmpty ?e) (locationToKey (snd (5, gp 0 1))) = Some stepLength"
    by (simp add: afterFirstEmpty_def dist_gp_equator calculateBaseDistance_same)
  have pre: "\<forall>y \<in> set [(1, gp (- 1) (- 1)), (2, gp (- 1) 0), (3, gp (- 1) 1), (4, gp 0 (- 1))].
      weight_less (Weight stepLength)
        (getOrInfinity (fScore (afterFirstEmpty ?e)) (locationToKey (snd y)))"
    using far [of "- 1"] nn [of "- 1" "- 1"] sp dp
    by (simp add: afterFirstEmpty_def getOrInfinity_def dg dist_gp_equator dist_gp_meridian)
  have post: "\<forall>y \<in> set [(6, gp 1 (- 1)), (7, gp 1 0), (8, gp 1 1)].
      \<not> weight_less (getOrInfinity (fScore (afterFirstEmpty ?e)) (locationToKey (snd y)))
          (Weight stepLength)"
    using far [of 1] nn [of 1 "- 1"] sp dp
    by (simp add: afterFirstEmpty_def getOrInfinity_def dg dist_gp_equator dist_gp_meridian)
  have "getLowestFScore
      ([(1, gp (- 1) (- 1)), (2, gp (- 1) 0), (3, gp (- 1) 1), (4, gp 0 (- 1))]
        @ (5, gp 0 1) # [(6, gp 1 (- 1)), (7, gp 1 0), (8, gp 1 1)])
      (fScore (afterFirstEmpty ?e)) = Inr (5, gp 0 1)"
    using fs pre post by (rule getLowestFScore_first_min)
  then have sel: "getLowestFScore (openSet (afterFirstEmpty ?e)) (fScore (afterFirstEmpty ?e))
      = Inr (5, gp 0 1)"
    by (simp add: afterFirstEmpty_def)
  have arrived: "isAtDestination (gp 0 1) ?e"
    by (simp add: isAtDestination_def calculateBaseDistance_same)
  have ne: "openSet (afterFirstEmpty ?e) \<noteq> []" by (simp add: afterFirstEmpty_def)
  have c1: "cameFrom (afterFirstEmpty ?e) (locationToKey (gp 0 1)) = Some (gp 0 0)"
    and c0: "cameFrom (afterFirstEmpty ?e) (locationToKey (gp 0 0)) = None"
    by (simp_all add: afterFirstEmpty_def)
  have "reconstructLoop (cameFrom (afterFirstEmpty ?e)) (gp 0 0) [gp 0 0, gp 0 1]
      = Some [gp 0 0, gp 0 1]"
    by (subst reconstructLoop.simps) (simp add: c0)
  then have rec: "reconstructPath (cameFrom (afterFirstEmpty ?e)) (gp 0 1) = Some [gp 0 0, gp 0 1]"
    unfolding reconstructPath_def by (subst reconstructLoop.simps) (simp add: c1)
  have "searchLoop (kb [] []) ?e p (afterFirstEmpty ?e) = Some (Inr [gp 0 0, gp 0 1])"
    using ne arrived by (subst searchLoop.simps) (simp add: sel rec)
  then show ?thesis unfolding findAccessibleRoute_def step1 .
qed

theorem C2_found_route_witness:
  "findAccessibleRoute (kb [] []) (gp 0 0) (gp 0 1) (prefs False False False)
     = Some (Inr [gp 0 0, gp 0 1])
   \<and> [gp 0 0, gp 0 1] \<noteq> [] \<and> hd [gp 0 0, gp 0 1] = gp 0 0
   \<and> calculateBaseDistance (last [gp 0 0, gp 0 1]) (gp 0 1) < 5"
  using C2_found_route [OF one_step_east [of "prefs False False False"]]
    one_step_east [of "prefs False False False"]
  by simp

section \<open>A search that does not end\<close>

subsection \<open>Grid points stay 5 metres away from the middle of a cell\<close>

lemma hav_a_lower:
  assumes "s \<le> (sin ((p2 - p1) / 2))\<^sup>2" "s \<le> (cos ((p1 + p2) / 2))\<^sup>2"
  shows "s \<le> hav_a p1 p2 (p2 - p1) dl"
proof -
  have "s = s * (cos (dl / 2))\<^sup>2 + s * (sin (dl / 2))\<^sup>2"
    by (simp add: distrib_left [symmetric])
  also have "\<dots> \<le> (sin ((p2 - p1) / 2))\<^sup>2 * (cos (dl / 2))\<^sup>2
      + (cos ((p1 + p2) / 2))\<^sup>2 * (sin (dl / 2))\<^sup>2"
    using assms by (intro add_mono mult_right_mono) simp_all
  finally show ?thesis unfolding hav_a_decomp .
qed

lemma grid_far_from_offGrid:
  assumes "onGrid l"
  shows "5 \<le> calculateBaseDistance l offGrid"
proof -
  from assms obtain i j :: int where la: "latitude l = of_int i * gridSize" by (auto simp add: onGrid_def)
  define t :: real where "t = pi / of_int 7200000"
  define p1 where "p1 = (latitude l * pi) / 180"
  define p2 where "p2 = (latitude offGrid * pi) / 180"
  have p1: "p1 = of_int (4 * i) * t" unfolding p1_def la t_def gridSize_def by simp
  have p2: "p2 = 2 * t" unfolding p2_def t_def offGrid_def by simp
  have d: "(p2 - p1) / 2 = of_int (1 - 2 * i) * t" unfolding p1 p2 by (simp add: field_simps)
  have m: "(p1 + p2) / 2 = of_int (2 * i + 1) * t" unfolding p1 p2 by (simp add: field_simps)
  have h: "pi / 2 = of_int 3600000 * t" unfolding t_def by simp
  have "cos ((p1 + p2) / 2) = sin (pi / 2 - (p1 + p2) / 2)" by (simp add: sin_diff)
  also have "pi / 2 - (p1 + p2) / 2 = of_int (3600000 - (2 * i + 1)) * t"
    unfolding m h by (simp add: field_simps)
  finally have c: "cos ((p1 + p2) / 2) = sin (of_int (3600000 - (2 * i + 1)) * t)" .
  have 1: "(sin t)\<^sup>2 \<le> (sin ((p2 - p1) / 2))\<^sup>2"
    unfolding d t_def by (intro sin_sq_odd_multiple) simp_all
  have 2: "(sin t)\<^sup>2 \<le> (cos ((p1 + p2) / 2))\<^sup>2"
    unfolding c t_def by (intro sin_sq_odd_multiple) simp_all
  define a where "a = hav_a p1 p2 (p2 - p1) (((longitude offGrid - longitude l) * pi) / 180)"
  have a: "(sin t)\<^sup>2 \<le> a" unfolding a_def using 1 2 by (rule hav_a_lower)
  have a1: "a \<le> 1" unfolding a_def by (rule hav_a_le_one)
  have t0: "0 \<le> t" and t1: "t \<le> pi / 2" unfolding t_def by simp_all
  have "t \<le> arcsin (sqrt a)" using t0 t1 a a1 by (rule arcsin_sqrt_lower)
  then have "6371000 * (2 * t) \<le> 6371000 * (2 * arcsin (sqrt a))" by simp
  moreover have "calculateBaseDistance l offGrid = 6371000 * (2 * arcsin (sqrt a))"
    unfolding a_def p1_def p2_def by (rule calculateBaseDistance_arcsin)
  moreover have "5 \<le> 6371000 * (2 * t)" unfolding t_def using pi_ge_three by simp
  ultimately show ?thesis by linarith
qed

subsection \<open>The open set never empties\<close>

lemma divInv_open_nonempty:
  assumes "divInv st"
  shows "openSet st \<noteq> []"
proof -
  from assms have fin: "finite (dom (gScore st))" and ne: "dom (gScore st) \<noteq> {}"
    and d3: "\<And>k. k \<in> dom (gScore st) \<Longrightarrow> k \<in> openKeys st \<or> northKey k \<in> dom (gScore st)"
    unfolding divInv_def by blast+
  define M where "M = Max (fst ` dom (gScore st))"
  have "M \<in> fst ` dom (gScore st)" unfolding M_def using fin ne by (intro Max_in) simp_all
  then obtain k where k: "k \<in> dom (gScore st)" "fst k = M" by auto
  have "northKey k \<notin> dom (gScore st)"
  proof
    assume "northKey k \<in> dom (gScore st)"
    then have "fst (northKey k) \<le> M" unfolding M_def using fin by (intro Max_ge) simp_all
    then show False using k(2) by (simp add: northKey_def gridSize_def)
  qed
  then have "k \<in> openKeys st" using d3 [OF k(1)] by blast
  then show ?thesis by (auto simp add: openKeys_def)
qed

lemma gridNeighbors_length: "length (gridNeighbors l) = 8"
  by (simp add: gridNeighbors_def)

lemma gridNeighbors_onGrid:
  assumes "onGrid l" "nb \<in> set (gridNeighbors l)"
  shows "onGrid nb"
proof -
  from assms(1) obtain i j :: int where
    l: "latitude l = of_int i * gridSize" "longitude l = of_int j * gridSize"
    by (auto simp add: onGrid_def)
  have "latitude nb = latitude l + of_int (- 1) * gridSize
      \<or> latitude nb = latitude l + of_int 0 * gridSize
      \<or> latitude nb = latitude l + of_int 1 * gridSize"
    using assms(2) by (auto simp add: gridNeighbors_def)
  then obtain di :: int where di: "latitude nb = latitude l + of_int di * gridSize" by blast
  have "longitude nb = longitude l + of_int (- 1) * gridSize
      \<or> longitude nb = longitude l + of_int 0 * gridSize
      \<or> longitude nb = longitude l + of_int 1 * gridSize"
    using assms(2) by (auto simp add: gridNeighbors_def)
  then obtain dj :: int where dj: "longitude nb = longitude l + of_int dj * gridSize" by blast
  from di dj
  have "latitude nb = of_int (i + di) * gridSize \<and> longitude nb = of_int (j + dj) * gridSize"
    unfolding l by (simp add: algebra_simps)
  then show ?thesis unfolding onGrid_def by blast
qed

lemma northKey_neighbor: "northKey (locationToKey l) \<in> locationToKey ` set (gridNeighbors l)"
  by (simp add: gridNeighbors_def northKey_def locationToKey_def image_iff)

lemma relax_emptyKb:
  assumes "gScore st (locationToKey cur) = Some g"
  shows "(relax (kb [] []) end p cur nb st = st \<and> locationToKey (snd nb) \<in> dom (gScore st))
   \<or> relax (kb [] []) end p cur nb st =
        st\<lparr>cameFrom := (cameFrom st)(locationToKey (snd nb) \<mapsto> cur),
           gScore := (gScore st)(locationToKey (snd nb) \<mapsto> g + calculateBaseDistance cur (snd nb)),
           fScore := (fScore st)(locationToKey (snd nb) \<mapsto>
              g + calculateBaseDistance cur (snd nb) + estimateDistance (snd nb) end),
           openSet := set_add nb (openSet st)\<rparr>"
  using assms
  by (auto simp add: relax_def emptyKb_weight Let_def getOrInfinity_def split: option.splits)

lemma divFold_step:
  assumes f: "divFold cur (nb # objs) st"
  shows "divFold cur objs (relax (kb [] []) end p cur nb st)
     \<and> locationToKey (snd nb) \<in> dom (gScore (relax (kb [] []) end p cur nb st))
     \<and> dom (gScore st) \<subseteq> dom (gScore (relax (kb [] []) end p cur nb st))
     \<and> nextRef (relax (kb [] []) end p cur nb st) = nextRef st"
proof -
  from f have
    f1: "\<And>x. x \<in> set (openSet st) \<Longrightarrow> onGrid (snd x)"
    and f2: "onGrid (snd nb)" "\<And>x. x \<in> set objs \<Longrightarrow> onGrid (snd x)"
    and f3: "finite (dom (gScore st))"
    and f4: "\<And>k. k \<in> dom (gScore st) \<Longrightarrow>
         k = locationToKey cur \<or> k \<in> openKeys st \<or> northKey k \<in> dom (gScore st)"
    and f5: "\<And>x. x \<in> set (openSet st) \<Longrightarrow>
         locationToKey (snd x) \<in> dom (gScore st) \<and> locationToKey (snd x) \<in> dom (fScore st)"
    and f6: "locationToKey cur \<in> dom (gScore st)"
    and f7: "\<And>x. x \<in> set (openSet st) \<Longrightarrow> fst x \<noteq> fst nb \<and> fst x \<notin> fst ` set objs"
    and f8: "fst nb \<notin> fst ` set objs" "distinct (map fst objs)"
    and f9: "\<And>x. x \<in> set (openSet st) \<Longrightarrow> fst x < nextRef st"
    and f10: "fst nb < nextRef st" "\<And>x. x \<in> set objs \<Longrightarrow> fst x < nextRef st"
    and f11: "distinct (map fst (openSet st))"
    unfolding divFold_def by auto
  from f6 obtain g where g: "gScore st (locationToKey cur) = Some g" by blast
  let ?k = "locationToKey (snd nb)"
  let ?st' = "st\<lparr>cameFrom := (cameFrom st)(?k \<mapsto> cur),
           gScore := (gScore st)(?k \<mapsto> g + calculateBaseDistance cur (snd nb)),
           fScore := (fScore st)(?k \<mapsto>
              g + calculateBaseDistance cur (snd nb) + estimateDistance (snd nb) end),
           openSet := set_add nb (openSet st)\<rparr>"
  consider (same) "relax (kb [] []) end p cur nb st = st" "?k \<in> dom (gScore st)"
    | (upd) "relax (kb [] []) end p cur nb st = ?st'"
    using relax_emptyKb [OF g, of "end" p nb] by blast
  then show ?thesis
  proof cases
    case same
    have "divFold cur objs st"
      unfolding divFold_def using f1 f2 f3 f4 f5 f6 f7 f8 f9 f10 f11 by blast
    then show ?thesis using same by simp
  next
    case upd
    have fresh: "fst nb \<notin> fst ` set (openSet st)"
    proof
      assume "fst nb \<in> fst ` set (openSet st)"
      then obtain x where x: "x \<in> set (openSet st)" "fst nb = fst x" by (rule imageE)
      from f7 [OF x(1)] x(2) show False by simp
    qed
    then have op: "set_add nb (openSet st) = openSet st @ [nb]" by (simp add: set_add_def)
    have ok: "openKeys ?st' = insert ?k (openKeys st)" by (simp add: openKeys_def op)
    have dg: "dom (gScore ?st') = insert ?k (dom (gScore st))" by simp
    have df: "dom (fScore ?st') = insert ?k (dom (fScore st))" by simp
    have os: "set (openSet ?st') = insert nb (set (openSet st))" by (simp add: op)
    have nr: "nextRef ?st' = nextRef st" by simp
    have di: "distinct (map fst (openSet ?st'))" using f11 fresh by (simp add: op)
    have "divFold cur objs ?st'"
      unfolding divFold_def dg df ok os nr
      using f1 f2 f3 f4 f5 f6 f7 f8 f9 f10 di by (intro conjI ballI) (blast | simp)+
    then show ?thesis unfolding upd dg by (simp add: subset_insertI)
  qed
qed

lemma divFold_fold:
  assumes "divFold cur objs st"
  shows "divFold cur [] (fold (relax (kb [] []) end p cur) objs st)
     \<and> (\<forall>nb \<in> set objs. locationToKey (snd nb) \<in> dom (gScore (fold (relax (kb [] []) end p cur) objs st)))
     \<and> dom (gScore st) \<subseteq> dom (gScore (fold (relax (kb [] []) end p cur) objs st))
     \<and> nextRef (fold (relax (kb [] []) end p cur) objs st) = nextRef st"
  using assms
proof (induction objs arbitrary: st)
  case Nil
  then show ?case by simp
next
  case (Cons nb objs)
  let ?st' = "relax (kb [] []) end p cur nb st"
  from divFold_step [OF Cons.prems, of "end" p] have
    1: "divFold cur objs ?st'" and 2: "locationToKey (snd nb) \<in> dom (gScore ?st')"
    and 3: "dom (gScore st) \<subseteq> dom (gScore ?st')" and 4: "nextRef ?st' = nextRef st"
    by blast+
  from Cons.IH [OF 1] have
    a: "divFold cur [] (fold (relax (kb [] []) end p cur) objs ?st')"
    and b: "\<forall>nb \<in> set objs. locationToKey (snd nb) \<in> dom (gScore (fold (relax (kb [] []) end p cur) objs ?st'))"
    and c: "dom (gScore ?st') \<subseteq> dom (gScore (fold (relax (kb [] []) end p cur) objs ?st'))"
    and d: "nextRef (fold (relax (kb [] []) end p cur) objs ?st') = nextRef ?st'"
    by blast+
  let ?fin = "fold (relax (kb [] []) end p cur) objs ?st'"
  have e: "fold (relax (kb [] []) end p cur) (nb # objs) st = ?fin" by simp
  have "locationToKey (snd nb) \<in> dom (gScore ?fin)" using 2 c by blast
  then have b': "\<forall>x \<in> set (nb # objs). locationToKey (snd x) \<in> dom (gScore ?fin)"
    using b by simp
  have c': "dom (gScore st) \<subseteq> dom (gScore ?fin)" using 3 c by blast
  have d': "nextRef ?fin = nextRef st" using d 4 by simp
  show ?case unfolding e using a b' c' d' by blast
qed

lemma expand_divInv:
  assumes inv: "divInv st" and cur: "current \<in> set (openSet st)"
  shows "divInv (expand (kb [] []) end p current st)"
proof -
  from inv have
    d1: "\<And>x. x \<in> set (openSet st) \<Longrightarrow> onGrid (snd x)"
    and d2: "finite (dom (gScore st))"
    and d3: "\<And>k. k \<in> dom (gScore st) \<Longrightarrow> k \<in> openKeys st \<or> northKey k \<in> dom (gScore st)"
    and d4: "\<And>x. x \<in> set (openSet st) \<Longrightarrow>
         locationToKey (snd x) \<in> dom (gScore st) \<and> locationToKey (snd x) \<in> dom (fScore st)"
    and d5: "\<And>x. x \<in> set (openSet st) \<Longrightarrow> fst x < nextRef st"
    and d6: "distinct (map fst (openSet st))"
    unfolding divInv_def by blast+
  let ?cur = "snd current"
  let ?ns = "gridNeighbors ?cur"
  let ?objs = "zip [nextRef st ..< nextRef st + length ?ns] ?ns"
  let ?st1 = "st\<lparr>openSet := set_delete current (openSet st), nextRef := nextRef st + length ?ns\<rparr>"
  have sub: "\<And>x. x \<in> set (set_delete current (openSet st)) \<Longrightarrow> x \<in> set (openSet st)"
    by (simp add: set_delete_def)
  have objs_snd: "\<And>nb. nb \<in> set ?objs \<Longrightarrow> snd nb \<in> set ?ns"
    by (metis set_zip_rightD prod.collapse)
  have objs_fst: "\<And>nb. nb \<in> set ?objs \<Longrightarrow> nextRef st \<le> fst nb \<and> fst nb < nextRef st + length ?ns"
  proof -
    fix nb assume "nb \<in> set ?objs"
    then have "fst nb \<in> set [nextRef st ..< nextRef st + length ?ns]"
      by (metis set_zip_leftD prod.collapse)
    then show "nextRef st \<le> fst nb \<and> fst nb < nextRef st + length ?ns" by simp
  qed
  have key_open: "k = locationToKey ?cur \<or> k \<in> openKeys ?st1" if "k \<in> openKeys st" for k
  proof -
    from that obtain x where x: "x \<in> set (openSet st)" "k = locationToKey (snd x)"
      by (auto simp add: openKeys_def)
    show ?thesis
    proof (cases "fst x = fst current")
      case True
      then have "x = current" using d6 x(1) cur by (metis eq_key_imp_eq_value prod.collapse)
      then show ?thesis using x(2) by simp
    next
      case False
      then have "x \<in> set (set_delete current (openSet st))" using x(1) by (simp add: set_delete_def)
      then show ?thesis using x(2) by (auto simp add: openKeys_def)
    qed
  qed
  have fold0: "divFold ?cur ?objs ?st1"
    unfolding divFold_def
  proof (intro conjI ballI)
    fix x assume "x \<in> set (openSet ?st1)"
    then have x: "x \<in> set (openSet st)" using sub by simp
    show "onGrid (snd x)" using d1 [OF x] .
    show "locationToKey (snd x) \<in> dom (gScore ?st1)" using d4 [OF x] by simp
    show "locationToKey (snd x) \<in> dom (fScore ?st1)" using d4 [OF x] by simp
    show "fst x < nextRef ?st1" using d5 [OF x] by simp
    show "fst x \<notin> fst ` set ?objs"
    proof
      assume "fst x \<in> fst ` set ?objs"
      then obtain nb where "nb \<in> set ?objs" "fst x = fst nb" by (rule imageE)
      then show False using objs_fst [of nb] d5 [OF x] by simp
    qed
  next
    fix nb assume nb: "nb \<in> set ?objs"
    show "onGrid (snd nb)" using gridNeighbors_onGrid [OF d1 [OF cur] objs_snd [OF nb]] .
    show "fst nb < nextRef ?st1" using objs_fst [OF nb] by simp
  next
    show "finite (dom (gScore ?st1))" using d2 by simp
    show "locationToKey ?cur \<in> dom (gScore ?st1)" using d4 [OF cur] by simp
    show "distinct (map fst ?objs)" by (simp add: map_fst_zip)
    show "distinct (map fst (openSet ?st1))" using d6 by (simp add: set_delete_def distinct_map_filter)
  next
    fix k assume "k \<in> dom (gScore ?st1)"
    then have k: "k \<in> dom (gScore st)" by simp
    show "k = locationToKey ?cur \<or> k \<in> openKeys ?st1 \<or> northKey k \<in> dom (gScore ?st1)"
      using d3 [OF k] key_open [of k] by auto
  qed
  let ?fin = "fold (relax (kb [] []) end p ?cur) ?objs ?st1"
  from divFold_fold [OF fold0, of "end" p] have
    a: "divFold ?cur [] ?fin"
    and b: "\<And>nb. nb \<in> set ?objs \<Longrightarrow> locationToKey (snd nb) \<in> dom (gScore ?fin)"
    and c: "dom (gScore ?st1) \<subseteq> dom (gScore ?fin)"
    by blast+
  have ex: "expand (kb [] []) end p current st = ?fin"
    by (simp add: expand_def emptyKb_neighbors Let_def)
  have snd_objs: "snd ` set ?objs = set ?ns"
  proof -
    have "map snd ?objs = ?ns" by (simp add: map_snd_zip)
    then have "set (map snd ?objs) = set ?ns" by (rule arg_cong)
    then show ?thesis by (simp only: set_map)
  qed
  have "northKey (locationToKey ?cur) \<in> locationToKey ` set ?ns" by (rule northKey_neighbor)
  then obtain n where n: "n \<in> set ?ns" "northKey (locationToKey ?cur) = locationToKey n" by (rule imageE)
  from n(1) snd_objs obtain nb where nb: "nb \<in> set ?objs" "snd nb = n" by (metis imageE)
  have north: "northKey (locationToKey ?cur) \<in> dom (gScore ?fin)"
    using b [OF nb(1)] nb(2) n(2) by simp
  from a have
    a1: "\<And>x. x \<in> set (openSet ?fin) \<Longrightarrow> onGrid (snd x)"
    and a3: "finite (dom (gScore ?fin))"
    and a4: "\<And>k. k \<in> dom (gScore ?fin) \<Longrightarrow>
         k = locationToKey ?cur \<or> k \<in> openKeys ?fin \<or> northKey k \<in> dom (gScore ?fin)"
    and a5: "\<And>x. x \<in> set (openSet ?fin) \<Longrightarrow>
         locationToKey (snd x) \<in> dom (gScore ?fin) \<and> locationToKey (snd x) \<in> dom (fScore ?fin)"
    and a6: "locationToKey ?cur \<in> dom (gScore ?fin)"
    and a9: "\<And>x. x \<in> set (openSet ?fin) \<Longrightarrow> fst x < nextRef ?fin"
    and a11: "distinct (map fst (openSet ?fin))"
    unfolding divFold_def by blast+
  have "divInv ?fin"
    unfolding divInv_def
  proof (intro conjI ballI)
    show "finite (dom (gScore ?fin))" by (rule a3)
    show "dom (gScore ?fin) \<noteq> {}" using a6 by blast
    show "distinct (map fst (openSet ?fin))" by (rule a11)
  next
    fix x assume x: "x \<in> set (openSet ?fin)"
    show "onGrid (snd x)" by (rule a1 [OF x])
    show "locationToKey (snd x) \<in> dom (gScore ?fin)" using a5 [OF x] by blast
    show "locationToKey (snd x) \<in> dom (fScore ?fin)" using a5 [OF x] by blast
    show "fst x < nextRef ?fin" by (rule a9 [OF x])
  next
    fix k assume k: "k \<in> dom (gScore ?fin)"
    show "k \<in> openKeys ?fin \<or> northKey k \<in> dom (gScore ?fin)"
      using a4 [OF k] north by blast
  qed
  then show ?thesis unfolding ex .
qed

lemma divInv_initial: "divInv (initialSearch origin offGrid)"
proof -
  have "onGrid origin"
    unfolding onGrid_def by (rule exI [of _ 0], rule exI [of _ 0]) (simp add: origin_def)
  then show ?thesis
    by (simp add: divInv_def initialSearch_def openKeys_def)
qed

lemma searchLoop_diverges:
  assumes "searchLoop svc end p st = Some r"
  shows "svc = kb [] [] \<and> end = offGrid \<and> divInv st \<longrightarrow> False"
proof (rule searchLoop.raw_induct [where P = "\<lambda>svc end p st r.
    svc = kb [] [] \<and> end = offGrid \<and> divInv st \<longrightarrow> False", OF _ assms])
  fix loop svc "end" p st r
  assume IH: "\<And>svc end p st r. loop svc end p st = Some r \<Longrightarrow>
      svc = kb [] [] \<and> end = offGrid \<and> divInv st \<longrightarrow> False"
    and eq: "(if openSet st = [] then Some (Inl NoRouteFound)
      else case getLowestFScore (openSet st) (fScore st) of
           Inl e \<Rightarrow> Some (Inl e)
           | Inr current \<Rightarrow>
               if isAtDestination (snd current) end
               then map_option Inr (reconstructPath (cameFrom st) (snd current))
               else loop svc end p (expand svc end p current st)) = Some r"
  show "svc = kb [] [] \<and> end = offGrid \<and> divInv st \<longrightarrow> False"
  proof
    assume a: "svc = kb [] [] \<and> end = offGrid \<and> divInv st"
    then have svc: "svc = kb [] []" and e: "end = offGrid" and inv: "divInv st" by blast+
    have ne: "openSet st \<noteq> []" using inv by (rule divInv_open_nonempty)
    have "\<forall>x \<in> set (openSet st). locationToKey (snd x) \<in> dom (fScore st)"
      using inv unfolding divInv_def by blast
    with ne obtain current where sel: "getLowestFScore (openSet st) (fScore st) = Inr current"
      using getLowestFScore_no_error by blast
    then have mem: "current \<in> set (openSet st)" by (rule getLowestFScore_member)
    have "onGrid (snd current)" using inv mem unfolding divInv_def by blast
    then have "5 \<le> calculateBaseDistance (snd current) offGrid" by (rule grid_far_from_offGrid)
    then have no: "\<not> isAtDestination (snd current) end" unfolding e isAtDestination_def by simp
    have call: "loop svc end p (expand svc end p current st) = Some r"
      using eq ne sel no by simp
    have "divInv (expand svc end p current st)"
      unfolding svc using inv mem by (rule expand_divInv)
    then show False using IH [OF call] svc e by blast
  qed
qed

text \<open>
  Claim C3 does not hold of the code: it says that every call returns a complete route or
  raises. The call from \<open>(0, 0)\<close> to \<open>(0.00005, 0.00005)\<close> in the empty knowledge base does
  neither. Every node that the search can select is a grid point, no grid point is within
  5 metres of the middle of a cell, and nothing bounds the grid, so the open set never
  empties: the loop does not end, and the error of the last line of the method, which
  is meant for a destination that cannot be reached, is never raised.
\<close>

theorem C3_call_without_outcome:
  "findAccessibleRoute (kb [] []) origin offGrid (prefs False False False) = None"
proof (cases "findAccessibleRoute (kb [] []) origin offGrid (prefs False False False)")
  case None
  then show ?thesis .
next
  case (Some r)
  then have "searchLoop (kb [] []) offGrid (prefs False False False) (initialSearch origin offGrid) = Some r"
    by (simp add: findAccessibleRoute_def)
  from searchLoop_diverges [OF this] divInv_initial show ?thesis by blast
qed

section \<open>The reserved preference fields\<close>

lemma obstacleLoop_prefs: "sameUsedFields p q \<Longrightarrow> obstacleLoop p w os = obstacleLoop q w os"
  by (induction os arbitrary: w) (auto simp add: sameUsedFields_def)

lemma featureLoop_prefs: "sameUsedFields p q \<Longrightarrow> featureLoop p w fs = featureLoop q w fs"
  by (induction fs arbitrary: w) (simp_all add: sameUsedFields_def)

lemma accessibleLoop_prefs: "sameUsedFields p q \<Longrightarrow> accessibleLoop p os = accessibleLoop q os"
  by (induction os) (auto simp add: sameUsedFields_def)

lemma calculatePathWeight_prefs:
  assumes "sameUsedFields p q"
  shows "calculatePathWeight svc a b p = calculatePathWeight svc a b q"
proof -
  have 1: "\<And>w os. obstacleLoop p w os = obstacleLoop q w os"
    using assms by (rule obstacleLoop_prefs)
  have 2: "\<And>w fs. featureLoop p w fs = featureLoop q w fs"
    using assms by (rule featureLoop_prefs)
  show ?thesis unfolding calculatePathWeight_def 1 2 ..
qed

lemma isLocationAccessible_prefs:
  assumes "sameUsedFields p q"
  shows "isLocationAccessible svc a p = isLocationAccessible svc a q"
proof -
  have 1: "\<And>os. accessibleLoop p os = accessibleLoop q os"
    using assms by (rule accessibleLoop_prefs)
  show ?thesis unfolding isLocationAccessible_def 1 ..
qed

lemma relax_prefs:
  assumes "sameUsedFields p q"
  shows "relax svc end p cur = relax svc end q cur"
proof -
  have 1: "\<And>a b. calculatePathWeight svc a b p = calculatePathWeight svc a b q"
    using assms by (rule calculatePathWeight_prefs)
  show ?thesis by (intro ext) (simp only: relax_def 1)
qed

lemma expand_prefs:
  assumes "sameUsedFields p q"
  shows "expand svc end p cur st = expand svc end q cur st"
proof -
  have 1: "\<And>a. isLocationAccessible svc a p = isLocationAccessible svc a q"
    using assms by (rule isLocationAccessible_prefs)
  show ?thesis unfolding expand_def getAccessibleNeighbors_def 1 relax_prefs [OF assms] ..
qed

lemma searchLoop_prefs_Some:
  assumes "searchLoop svc end p st = Some r"
  shows "\<forall>q. sameUsedFields p q \<longrightarrow> searchLoop svc end q st = Some r"
proof (rule searchLoop.raw_induct [where P = "\<lambda>svc end p st r.
    \<forall>q. sameUsedFields p q \<longrightarrow> searchLoop svc end q st = Some r", OF _ assms])
  fix loop svc "end" p st r
  assume IH: "\<And>svc end p st r. loop svc end p st = Some r \<Longrightarrow>
      \<forall>q. sameUsedFields p q \<longrightarrow> searchLoop svc end q st = Some r"
    and eq: "(if openSet st = [] then Some (Inl NoRouteFound)
      else case getLowestFScore (openSet st) (fScore st) of
           Inl e \<Rightarrow> Some (Inl e)
           | Inr current \<Rightarrow>
               if isAtDestination (snd current) end
               then map_option Inr (reconstructPath (cameFrom st) (snd current))
               else loop svc end p (expand svc end p current st)) = Some r"
  show "\<forall>q. sameUsedFields p q \<longrightarrow> searchLoop svc end q st = Some r"
  proof (intro allI impI)
    fix q assume pq: "sameUsedFields p q"
    show "searchLoop svc end q st = Some r"
    proof (cases "openSet st = []")
      case True
      then show ?thesis using eq by (subst searchLoop.simps) simp
    next
      case False
      show ?thesis
      proof (cases "getLowestFScore (openSet st) (fScore st)")
        case (Inl e)
        then show ?thesis using eq False by (subst searchLoop.simps) simp
      next
        case (Inr current)
        show ?thesis
        proof (cases "isAtDestination (snd current) end")
          case True
          then show ?thesis using eq False Inr by (subst searchLoop.simps) simp
        next
          case no: False
          then have "loop svc end p (expand svc end p current st) = Some r"
            using eq False Inr by simp
          from IH [OF this] pq
          have "searchLoop svc end q (expand svc end p current st) = Some r" by blast
          then have "searchLoop svc end q (expand svc end q current st) = Some r"
            using expand_prefs [OF pq] by simp
          then show ?thesis using False Inr no by (subst searchLoop.simps) simp
        qed
      qed
    qed
  qed
qed

lemma sameUsedFields_sym: "sameUsedFields p q \<Longrightarrow> sameUsedFields q p"
  by (simp add: sameUsedFields_def)

lemma searchLoop_prefs:
  assumes "sameUsedFields p q"
  shows "searchLoop svc end p st = searchLoop svc end q st"
proof (cases "searchLoop svc end p st")
  case (Some r)
  then show ?thesis using searchLoop_prefs_Some assms by metis
next
  case None
  show ?thesis
  proof (cases "searchLoop svc end q st")
    case None': None
    then show ?thesis using None by simp
  next
    case (Some r)
    then have "searchLoop svc end p st = Some r"
      using searchLoop_prefs_Some sameUsedFields_sym [OF assms] by metis
    then show ?thesis using None by simp
  qed
qed

text \<open>
  Claim C9. Two preference records that agree on \<open>requiresWheelchairAccess\<close>,
  \<open>preferWellLit\<close> and \<open>needsRestStops\<close> (and so differ at most in \<open>maximumSlope\<close> and
  \<open>minimumPathWidth\<close>) give the same edge weight, the same accessibility and the same
  outcome of the search, non-termination included.
\<close>

theorem C9_reserved_fields_unused:
  assumes "requiresWheelchairAccess p = requiresWheelchairAccess q"
    and "preferWellLit p = preferWellLit q"
    and "needsRestStops p = needsRestStops q"
  shows "calculatePathWeight svc a b p = calculatePathWeight svc a b q
     \<and> isLocationAccessible svc a p = isLocationAccessible svc a q
     \<and> findAccessibleRoute svc a b p = findAccessibleRoute svc a b q"
proof -
  have s: "sameUsedFields p q" using assms by (simp add: sameUsedFields_def)
  show ?thesis
    using calculatePathWeight_prefs [OF s] isLocationAccessible_prefs [OF s] searchLoop_prefs [OF s]
    by (simp add: findAccessibleRoute_def)
qed

theorem C9_reserved_fields_unused_witness:
  "calculatePathWeight annotatedKb origin north (prefs True True True)
     = calculatePathWeight annotatedKb origin north
         ((prefs True True True)\<lparr>maximumSlope := Some 5, minimumPathWidth := Some 1\<rparr>)
   \<and> isLocationAccessible annotatedKb origin (prefs True True True)
     = isLocationAccessible annotatedKb origin
         ((prefs True True True)\<lparr>maximumSlope := Some 5, minimumPathWidth := Some 1\<rparr>)
   \<and> findAccessibleRoute annotatedKb origin north (prefs True True True)
     = findAccessibleRoute annotatedKb origin north
         ((prefs True True True)\<lparr>maximumSlope := Some 5, minimumPathWidth := Some 1\<rparr>)
   \<and> prefs True True True \<noteq> (prefs True True True)\<lparr>maximumSlope := Some 5, minimumPathWidth := Some 1\<rparr>"
proof -
  have "prefs True True True \<noteq> (prefs True True True)\<lparr>maximumSlope := Some 5, minimumPathWidth := Some 1\<rparr>"
    by (simp add: prefs_def)
  then show ?thesis
    using C9_reserved_fields_unused [of "prefs True True True"
      "(prefs True True True)\<lparr>maximumSlope := Some 5, minimumPathWidth := Some 1\<rparr>"
      annotatedKb origin north]
    by simp
qed

section \<open>The open set can hold one coordinate pair twice\<close>

subsection \<open>What relaxing other neighbours leaves alone\<close>

lemma relax_open_mono: "set (openSet st) \<subseteq> set (openSet (relax svc end p cur nb st))"
  using relax_cases [of svc "end" p cur nb st] by (auto simp add: set_add_def)

lemma relax_gScore_other:
  "locationToKey (snd nb) \<noteq> k \<Longrightarrow> gScore (relax svc end p cur nb st) k = gScore st k"
  using relax_cases [of svc "end" p cur nb st] by auto

lemma relax_open_upper:
  "set (openSet (relax svc end p cur nb st)) \<subseteq> insert nb (set (openSet st))"
proof -
  consider "relax svc end p cur nb st = st"
    | "openSet (relax svc end p cur nb st) = set_add nb (openSet st)"
    using relax_cases [of svc "end" p cur nb st] by fastforce
  then show ?thesis
  proof cases
    case 1
    then show ?thesis by auto
  next
    case 2
    then show ?thesis using set_set_add [of nb "openSet st"] by simp
  qed
qed

lemma relax_refs:
  "fst ` set (openSet (relax svc end p cur nb st)) \<subseteq> insert (fst nb) (fst ` set (openSet st))"
  using relax_open_upper [of svc "end" p cur nb st] by blast

lemma fold_relax_open_mono:
  "set (openSet st) \<subseteq> set (openSet (fold (relax svc end p cur) nbs st))"
proof (induction nbs arbitrary: st)
  case Nil
  then show ?case by simp
next
  case (Cons nb nbs)
  have "set (openSet st) \<subseteq> set (openSet (relax svc end p cur nb st))"
    by (rule relax_open_mono)
  also have "\<dots> \<subseteq> set (openSet (fold (relax svc end p cur) nbs (relax svc end p cur nb st)))"
    by (rule Cons.IH)
  finally show ?case by simp
qed

lemma fold_relax_gScore_other:
  "k \<notin> (\<lambda>nb. locationToKey (snd nb)) ` set nbs \<Longrightarrow>
   gScore (fold (relax svc end p cur) nbs st) k = gScore st k"
proof (induction nbs arbitrary: st)
  case Nil
  then show ?case by simp
next
  case (Cons nb nbs)
  have 1: "locationToKey (snd nb) \<noteq> k" and 2: "k \<notin> (\<lambda>nb. locationToKey (snd nb)) ` set nbs"
    using Cons.prems by auto
  show ?case using Cons.IH [OF 2, of "relax svc end p cur nb st"] relax_gScore_other [OF 1]
    by simp
qed

lemma fold_relax_refs:
  "fst ` set (openSet (fold (relax svc end p cur) nbs st)) \<subseteq> fst ` set nbs \<union> fst ` set (openSet st)"
proof (induction nbs arbitrary: st)
  case Nil
  then show ?case by simp
next
  case (Cons nb nbs)
  have "fst ` set (openSet (fold (relax svc end p cur) nbs (relax svc end p cur nb st)))
      \<subseteq> fst ` set nbs \<union> fst ` set (openSet (relax svc end p cur nb st))"
    by (rule Cons.IH)
  also have "\<dots> \<subseteq> fst ` set nbs \<union> insert (fst nb) (fst ` set (openSet st))"
    using relax_refs [of svc "end" p cur nb st] by blast
  finally show ?case by auto
qed

lemma same_key_not_distinct:
  assumes "x \<in> set xs" "y \<in> set xs" "x \<noteq> y" "f x = f y"
  shows "\<not> distinct (map f xs)"
  using assms by (auto simp add: distinct_map inj_on_def)

subsection \<open>The scenario\<close>

lemma rampKb_weight:
  "calculatePathWeight rampKb a b (prefs True False False) = Weight (rampWeight a b)"
  by (simp add: calculatePathWeight_def findObstaclesOnPath_def findFeaturesOnPath_def rampKb_def
      kb_def featureAt_def prefs_def rampWeight_def eval_nat_numeral)

lemma rampKb_neighbors: "getAccessibleNeighbors rampKb l p = gridNeighbors l"
  by (simp add: getAccessibleNeighbors_def isLocationAccessible_def rampKb_def kb_def)

lemma rampWeight_nonneg: "0 \<le> rampWeight a b"
  using calculateBaseDistance_nonneg [of a b] by (simp add: rampWeight_def)

lemma relax_rampKb:
  "relax rampKb end (prefs True False False) cur nb st =
     (case gScore st (locationToKey cur) of
        None \<Rightarrow> st
      | Some g \<Rightarrow>
          if (case gScore st (locationToKey (snd nb)) of None \<Rightarrow> True
              | Some v \<Rightarrow> g + rampWeight cur (snd nb) < v)
          then st\<lparr>cameFrom := (cameFrom st)(locationToKey (snd nb) \<mapsto> cur),
                  gScore := (gScore st)(locationToKey (snd nb) \<mapsto> g + rampWeight cur (snd nb)),
                  fScore := (fScore st)(locationToKey (snd nb) \<mapsto>
                     g + rampWeight cur (snd nb) + calculateBaseDistance (snd nb) end),
                  openSet := set_add nb (openSet st)\<rparr>
          else st)"
  by (simp add: relax_def rampKb_weight Let_def getOrInfinity_def estimateDistance_def
      split: option.splits)

lemma first_expansion:
  "expand rampKb (gp 0 2) (prefs True False False) (0, gp 0 0) (initialSearch (gp 0 0) (gp 0 2))
     = afterFirst"
  by (simp add: expand_def rampKb_neighbors gridNeighbors_gp initialSearch_def set_delete_def
      upt_1_9 relax_rampKb set_add_def afterFirst_def estimateDistance_def)

lemma near_iff:
  "isPointNearLine x a b 20 \<longleftrightarrow>
     calculateBaseDistance x a + calculateBaseDistance x b < calculateBaseDistance a b + 20"
  by (simp add: isPointNearLine_def)

lemma weight_start_east: "rampWeight (gp 0 0) (gp 0 1) = stepLength"
proof -
  have "\<not> isPointNearLine (gp 0 2) (gp 0 0) (gp 0 1) 20"
    using stepLength_ge by (simp add: near_iff dist_gp_equator)
  then show ?thesis by (simp add: rampWeight_def dist_gp_equator)
qed

lemma weight_start_diagonal:
  assumes "\<bar>i\<bar> = 1"
  shows "rampWeight (gp 0 0) (gp i 1) = diagonalLength"
proof -
  have 1: "calculateBaseDistance (gp 0 2) (gp i 1) = diagonalLength"
    using assms by (intro dist_gp_diagonal) simp_all
  have 2: "calculateBaseDistance (gp 0 0) (gp i 1) = diagonalLength"
    using assms by (intro dist_gp_diagonal) simp_all
  have "\<not> isPointNearLine (gp 0 2) (gp 0 0) (gp i 1) 20"
    using stepLength_ge by (simp add: near_iff 1 2 dist_gp_equator)
  then show ?thesis by (simp add: rampWeight_def 2)
qed

lemma weight_east_north: "rampWeight (gp 0 1) (gp 1 1) = stepLength * (0.8 ^ 5)"
proof -
  have 1: "calculateBaseDistance (gp 0 2) (gp 1 1) = diagonalLength"
    by (intro dist_gp_diagonal) simp_all
  have "isPointNearLine (gp 0 2) (gp 0 1) (gp 1 1) 20"
    using diagonalLength_less by (simp add: near_iff 1 dist_gp_equator dist_gp_meridian)
  then show ?thesis by (simp add: rampWeight_def dist_gp_meridian)
qed

lemma second_selection:
  "getLowestFScore (openSet afterFirst) (fScore afterFirst) = Inr (5, gp 0 1)"
proof -
  have f3: "2 * stepLength < calculateBaseDistance (gp i (- 1)) (gp 0 2)" if "\<bar>i\<bar> = 1" for i
    using that by (intro dist_gp_far) auto
  have f2: "2 * stepLength < calculateBaseDistance (gp i 0) (gp 0 2)" if "\<bar>i\<bar> = 1" for i
    using that by (intro dist_gp_far) auto
  have d1: "calculateBaseDistance (gp i 1) (gp 0 2) = diagonalLength" if "\<bar>i\<bar> = 1" for i
    using that by (intro dist_gp_diagonal) auto
  have e: "calculateBaseDistance (gp 0 1) (gp 0 2) = stepLength"
    "calculateBaseDistance (gp 0 (- 1)) (gp 0 2) = 3 * stepLength"
    by (simp_all add: dist_gp_equator)
  have w: "0 \<le> rampWeight (gp 0 0) (gp i j)" for i j by (rule rampWeight_nonneg)
  have sp: "0 < stepLength" using stepLength_ge by simp
  have fs: "fScore afterFirst (locationToKey (snd (5, gp 0 1))) = Some (2 * stepLength)"
    by (simp add: afterFirst_def weight_start_east e)
  have pre: "\<forall>y \<in> set [(1, gp (- 1) (- 1)), (2, gp (- 1) 0), (3, gp (- 1) 1), (4, gp 0 (- 1))].
      weight_less (Weight (2 * stepLength))
        (getOrInfinity (fScore afterFirst) (locationToKey (snd y)))"
    using f3 [of "- 1"] f2 [of "- 1"] w [of "- 1" "- 1"] w [of "- 1" 0] w [of 0 "- 1"]
      step_lt_diagonal sp
    by (simp add: afterFirst_def getOrInfinity_def weight_start_diagonal d1 e)
  have post: "\<forall>y \<in> set [(6, gp 1 (- 1)), (7, gp 1 0), (8, gp 1 1)].
      \<not> weight_less (getOrInfinity (fScore afterFirst) (locationToKey (snd y)))
          (Weight (2 * stepLength))"
    using f3 [of 1] f2 [of 1] w [of 1 "- 1"] w [of 1 0] step_lt_diagonal sp
    by (simp add: afterFirst_def getOrInfinity_def weight_start_diagonal d1 e)
  have "getLowestFScore
      ([(1, gp (- 1) (- 1)), (2, gp (- 1) 0), (3, gp (- 1) 1), (4, gp 0 (- 1))]
        @ (5, gp 0 1) # [(6, gp 1 (- 1)), (7, gp 1 0), (8, gp 1 1)])
      (fScore afterFirst) = Inr (5, gp 0 1)"
    using fs pre post by (rule getLowestFScore_first_min)
  then show ?thesis by (simp add: afterFirst_def)
qed

lemma upt_9_17: "[9 ..< 17] = [9, 10, 11, 12, 13, 14, 15, 16 :: nat]"
  by (simp add: upt_rec)

lemma second_expansion:
  "(8, gp 1 1) \<in> set (openSet (expand rampKb (gp 0 2) (prefs True False False) (5, gp 0 1) afterFirst))
   \<and> (15, gp 1 1) \<in> set (openSet (expand rampKb (gp 0 2) (prefs True False False) (5, gp 0 1) afterFirst))"
proof -
  let ?p = "prefs True False False"
  let ?rel = "relax rampKb (gp 0 2) ?p (gp 0 1)"
  define base where "base = afterFirst\<lparr>openSet := set_delete (5, gp 0 1) (openSet afterFirst),
      nextRef := nextRef afterFirst + 8\<rparr>"
  define pre :: "obj list" where "pre = [(9, gp (- 1) 0), (10, gp (- 1) 1), (11, gp (- 1) 2),
      (12, gp 0 0), (13, gp 0 2), (14, gp 1 0)]"
  define stA where "stA = fold ?rel pre base"
  define stB where "stB = ?rel (15, gp 1 1) stA"
  have ex: "expand rampKb (gp 0 2) ?p (5, gp 0 1) afterFirst = ?rel (16, gp 1 2) stB"
  proof -
    have n: "nextRef afterFirst = 9" by (simp add: afterFirst_def)
    have "expand rampKb (gp 0 2) ?p (5, gp 0 1) afterFirst =
        fold ?rel (pre @ [(15, gp 1 1), (16, gp 1 2)]) base"
      unfolding expand_def rampKb_neighbors Let_def base_def pre_def
      by (simp add: gridNeighbors_gp n upt_9_17)
    then show ?thesis unfolding stB_def stA_def by simp
  qed
  have base_open: "openSet base = [(1, gp (- 1) (- 1)), (2, gp (- 1) 0), (3, gp (- 1) 1),
      (4, gp 0 (- 1)), (6, gp 1 (- 1)), (7, gp 1 0), (8, gp 1 1)]"
    by (simp add: base_def afterFirst_def set_delete_def)
  have gm: "gScore stA (locationToKey (gp 0 1)) = Some stepLength"
  proof -
    have "gScore stA (locationToKey (gp 0 1)) = gScore base (locationToKey (gp 0 1))"
      unfolding stA_def by (intro fold_relax_gScore_other) (simp add: pre_def)
    then show ?thesis by (simp add: base_def afterFirst_def weight_start_east)
  qed
  have gy: "gScore stA (locationToKey (gp 1 1)) = Some diagonalLength"
  proof -
    have "gScore stA (locationToKey (gp 1 1)) = gScore base (locationToKey (gp 1 1))"
      unfolding stA_def by (intro fold_relax_gScore_other) (simp add: pre_def)
    then show ?thesis by (simp add: base_def afterFirst_def weight_start_diagonal)
  qed
  have old: "(8, gp 1 1) \<in> set (openSet stA)"
  proof -
    have "(8, gp 1 1) \<in> set (openSet base)" by (simp add: base_open)
    then show ?thesis unfolding stA_def using fold_relax_open_mono by blast
  qed
  have fresh: "15 \<notin> fst ` set (openSet stA)"
  proof -
    have "fst ` set (openSet stA) \<subseteq> fst ` set pre \<union> fst ` set (openSet base)"
      unfolding stA_def by (rule fold_relax_refs)
    moreover have "15 \<notin> fst ` set pre \<union> fst ` set (openSet base)"
      by (simp add: pre_def base_open)
    ultimately show ?thesis by blast
  qed
  have better: "stepLength + rampWeight (gp 0 1) (gp 1 1) < diagonalLength"
  proof -
    have "stepLength + stepLength * (0.8 ^ 5) \<le> 133 / 100 * stepLength"
      using stepLength_ge by (simp add: eval_nat_numeral)
    then show ?thesis unfolding weight_east_north using diagonalLength_greater by linarith
  qed
  have openB: "openSet stB = openSet stA @ [(15, gp 1 1)]"
    unfolding stB_def relax_rampKb using gm gy better fresh by (simp add: set_add_def)
  have "set (openSet stB) \<subseteq> set (openSet (?rel (16, gp 1 2) stB))" by (rule relax_open_mono)
  moreover have "(8, gp 1 1) \<in> set (openSet stB)" "(15, gp 1 1) \<in> set (openSet stB)"
    using old by (simp_all add: openB)
  ultimately show ?thesis unfolding ex by blast
qed

lemma first_step:
  "searchStep rampKb (gp 0 2) (prefs True False False) (initialSearch (gp 0 0) (gp 0 2))
     = Some afterFirst"
proof -
  have sel: "getLowestFScore [(0, gp 0 0)] [locationToKey (gp 0 0) \<mapsto> estimateDistance (gp 0 0) (gp 0 2)]
      = Inr (0, gp 0 0)"
    by (simp add: getLowestFScore_def getOrInfinity_def)
  have far: "\<not> isAtDestination (gp 0 0) (gp 0 2)"
    using stepLength_ge by (simp add: isAtDestination_def dist_gp_equator)
  have "searchStep rampKb (gp 0 2) (prefs True False False) (initialSearch (gp 0 0) (gp 0 2))
     = Some (expand rampKb (gp 0 2) (prefs True False False) (0, gp 0 0)
          (initialSearch (gp 0 0) (gp 0 2)))"
    using far by (simp add: searchStep_def initialSearch_def sel)
  then show ?thesis unfolding first_expansion .
qed

lemma second_step:
  "searchStep rampKb (gp 0 2) (prefs True False False) afterFirst
     = Some (expand rampKb (gp 0 2) (prefs True False False) (5, gp 0 1) afterFirst)"
proof -
  have far: "\<not> isAtDestination (gp 0 1) (gp 0 2)"
    using stepLength_ge by (simp add: isAtDestination_def dist_gp_equator)
  have "openSet afterFirst \<noteq> []" by (simp add: afterFirst_def)
  then show ?thesis using far by (simp add: searchStep_def second_selection)
qed

text \<open>
  Claim C7 says that the open set never holds two entries with the same coordinates.
  The open set is a \<open>Set\<close> of objects, every neighbour is a new object, and so \<open>add\<close>
  inserts it even when a node with its coordinates is open. With five ramps two grid
  steps east of the start \<open>(0, 0)\<close>, the destination at the ramps and wheelchair access
  required, the first turn opens the eight neighbours of the start, among them the
  north-eastern one (object 8); the second turn expands the eastern neighbour, finds a
  cheaper way to the north-eastern point over the discounted edge, and adds it again
  (object 15) beside the first.
\<close>

theorem C7_open_set_holds_duplicate:
  "\<exists>s. stateAfter rampKb (gp 0 2) (prefs True False False) (initialSearch (gp 0 0) (gp 0 2)) 2 = Some s
      \<and> (8, gp 1 1) \<in> set (openSet s) \<and> (15, gp 1 1) \<in> set (openSet s)
      \<and> \<not> distinct (map (\<lambda>x. locationToKey (snd x)) (openSet s))"
proof -
  let ?s = "expand rampKb (gp 0 2) (prefs True False False) (5, gp 0 1) afterFirst"
  have "stateAfter rampKb (gp 0 2) (prefs True False False) (initialSearch (gp 0 0) (gp 0 2))
      (Suc (Suc 0)) = Some ?s"
    by (simp add: first_step second_step)
  then have 1: "stateAfter rampKb (gp 0 2) (prefs True False False)
      (initialSearch (gp 0 0) (gp 0 2)) 2 = Some ?s"
    by (simp add: numeral_2_eq_2)
  have 2: "(8, gp 1 1) \<in> set (openSet ?s)" and 3: "(15, gp 1 1) \<in> set (openSet ?s)"
    using second_expansion by blast+
  have "(8 :: nat, gp 1 1) \<noteq> (15, gp 1 1)" by simp
  then have 4: "\<not> distinct (map (\<lambda>x. locationToKey (snd x)) (openSet ?s))"
    using 2 3 by (intro same_key_not_distinct [of "(8, gp 1 1)" _ "(15, gp 1 1)"]) simp_all
  show ?thesis using 1 2 3 4 by blast
qed

end
